theory Spec2Isabelle
  imports Complex_Main
begin

section \<open>Vectors, matrices and the error channel\<close>

text \<open>
  The scalar type of the program is \<open>double\<close>. The functions embedded here only copy
  scalars, subtract them entry by entry, and write the constants 0, 1 and -1, so the scalar
  type is a type variable \<open>'a\<close>; a class constraint is added where an operation needs it.

  An \<open>Eigen::VectorXd\<close> is a list. An \<open>Eigen::MatrixXd\<close> is stored by columns, as Eigen
  does: the row count and the list of its columns. Sizes are non-negative \<open>int\<close>s in the
  source (Eigen rejects negative ones); they are \<open>nat\<close> here.
\<close>

datatype error =
    AssertionFailed string
  | OutOfRange
  | SizeMismatch

record 'a mat =
  nrows :: nat
  columns :: "'a list list"

definition ncols :: "'a mat \<Rightarrow> nat" where
  "ncols M = length (columns M)"

text \<open>\<open>Eigen::MatrixXd::Zero(r, c)\<close> and \<open>Eigen::VectorXd::Zero(n)\<close>.\<close>

definition Zero :: "nat \<Rightarrow> nat \<Rightarrow> ('a::zero) mat" where
  "Zero r c = \<lparr>nrows = r, columns = replicate c (replicate r 0)\<rparr>"

definition VectorZero :: "nat \<Rightarrow> ('a::zero) list" where
  "VectorZero n = replicate n 0"

text \<open>The coefficient \<open>M(i, j)\<close>, for \<open>i < nrows M\<close> and \<open>j < ncols M\<close>.\<close>

definition coeff :: "'a mat \<Rightarrow> nat \<Rightarrow> nat \<Rightarrow> 'a" where
  "coeff M i j = columns M ! j ! i"

text \<open>Every column of a matrix has \<open>nrows\<close> entries.\<close>

definition wf_mat :: "'a mat \<Rightarrow> bool" where
  "wf_mat M = list_all (\<lambda>c. length c = nrows M) (columns M)"

section \<open>Mappings\<close>

text \<open>
  Modelled from the spec: \<open>neural::Mapping\<close> is not among the sources. The spec (section 3)
  gives it three integer dimensions \<open>(posDim, velDim, forceDim)\<close>, constant for the lifetime
  of a problem; only these dimensions are used by the code embedded here.
\<close>

record Mapping =
  getPosDim :: nat
  getVelDim :: nat
  getForceDim :: nat

section \<open>Rollout buffers (TrajectoryRollout.cpp)\<close>

text \<open>
  \<open>TrajectoryRolloutReal\<close> owns three \<open>unordered_map<string, MatrixXd>\<close> (maps here), the
  mass vector, the list of mapping names and the metadata map. The metadata map is an
  association list: \<open>getMetadata\<close> iterates over it to print its keys, and the order of the
  list stands for the iteration order of the \<open>unordered_map\<close>.
\<close>

record 'a TrajectoryRolloutReal =
  mPoses :: "string \<rightharpoonup> 'a mat"
  mVels :: "string \<rightharpoonup> 'a mat"
  mForces :: "string \<rightharpoonup> 'a mat"
  mMasses :: "'a list"
  mMetadata :: "(string \<times> 'a mat) list"
  mRepresentationMapping :: string
  mMappings :: "string list"

text \<open>
  The body of the constructor's loop \<open>for (auto pair : mappings)\<close>: the argument list holds
  the pairs of the \<open>unordered_map\<close> in iteration order.
\<close>

fun TrajectoryRolloutReal_loop ::
  "(string \<times> Mapping) list \<Rightarrow> nat \<Rightarrow> ('a::zero) TrajectoryRolloutReal
    \<Rightarrow> 'a TrajectoryRolloutReal" where
  "TrajectoryRolloutReal_loop [] steps r = r"
| "TrajectoryRolloutReal_loop (pair # rest) steps r =
     TrajectoryRolloutReal_loop rest steps
       (r\<lparr>mPoses := (mPoses r)(fst pair \<mapsto> Zero (getPosDim (snd pair)) steps),
          mVels := (mVels r)(fst pair \<mapsto> Zero (getVelDim (snd pair)) steps),
          mForces := (mForces r)(fst pair \<mapsto> Zero (getForceDim (snd pair)) steps),
          mMappings := mMappings r @ [fst pair]\<rparr>)"

definition TrajectoryRolloutReal_new ::
  "(string \<times> Mapping) list \<Rightarrow> nat \<Rightarrow> string \<Rightarrow> nat \<Rightarrow> (string \<times> 'a mat) list
    \<Rightarrow> ('a::zero) TrajectoryRolloutReal" where
  "TrajectoryRolloutReal_new mappings steps representationMapping massDim metadata =
     (let r0 = \<lparr>mPoses = Map.empty, mVels = Map.empty, mForces = Map.empty,
                 mMasses = [], mMetadata = metadata,
                 mRepresentationMapping = representationMapping, mMappings = []\<rparr>;
          r1 = TrajectoryRolloutReal_loop mappings steps r0
      in r1\<lparr>mMasses := VectorZero massDim\<rparr>)"

text \<open>
  \<open>TrajectoryRolloutReal::getMetadata\<close> is \<open>const\<close>: it returns a matrix and writes to
  \<open>std::cout\<close>. The model returns the matrix and the lines printed; the rollout is an
  argument only, so the metadata map cannot change.
\<close>

definition metadata_warning :: "string \<Rightarrow> string" where
  "metadata_warning key =
     ''Warning: Asking TrajectoryRollout for metadata key \"'' @ key
       @ ''\" that doesn't exist! Keys that do exist:''"

definition metadata_key_line :: "string \<Rightarrow> string" where
  "metadata_key_line k = ''   - \"'' @ k @ ''\"''"

definition getMetadata ::
  "('a::zero) TrajectoryRolloutReal \<Rightarrow> string \<Rightarrow> 'a mat \<times> string list" where
  "getMetadata r key =
     (case map_of (mMetadata r) key of
        None \<Rightarrow>
          (Zero 0 0,
           metadata_warning key # map (\<lambda>pair. metadata_key_line (fst pair)) (mMetadata r))
      | Some value \<Rightarrow> (value, []))"

text \<open>
  \<open>TrajectoryRolloutConstRef\<close>: a const slice of another rollout. Its mutable entry points
  consist of one failing assertion each and have no \<open>return\<close> statement.
\<close>

record 'a TrajectoryRolloutConstRef =
  mToSlice :: "'a TrajectoryRolloutReal"
  mStart :: nat
  mLen :: nat

definition const_ref_message :: string where
  "const_ref_message =
     ''It should be impossible to get a mutable reference from a TrajectorRolloutConstRef''"

definition ConstRef_getPoses ::
  "'a TrajectoryRolloutConstRef \<Rightarrow> string \<Rightarrow> error + 'a mat" where
  "ConstRef_getPoses r mapping = Inl (AssertionFailed const_ref_message)"

definition ConstRef_getVels ::
  "'a TrajectoryRolloutConstRef \<Rightarrow> string \<Rightarrow> error + 'a mat" where
  "ConstRef_getVels r mapping = Inl (AssertionFailed const_ref_message)"

definition ConstRef_getForces ::
  "'a TrajectoryRolloutConstRef \<Rightarrow> string \<Rightarrow> error + 'a mat" where
  "ConstRef_getForces r mapping = Inl (AssertionFailed const_ref_message)"

definition ConstRef_getMasses ::
  "'a TrajectoryRolloutConstRef \<Rightarrow> error + 'a list" where
  "ConstRef_getMasses r = Inl (AssertionFailed const_ref_message)"

definition ConstRef_setMetadata ::
  "'a TrajectoryRolloutConstRef \<Rightarrow> string \<Rightarrow> 'a mat
    \<Rightarrow> error + 'a TrajectoryRolloutConstRef" where
  "ConstRef_setMetadata r key value = Inl (AssertionFailed const_ref_message)"

section \<open>Eigen segments, blocks and columns\<close>

text \<open>
  Eigen checks the range of every \<open>segment\<close>, \<open>block\<close>, \<open>col\<close> and coefficient access and
  the sizes of both sides of an assignment with assertions. A failed check is an error
  value here. \<open>segment\<close> and \<open>block\<close> read without a check: the code that calls them below
  checks the range first, or assigns to the same range, which checks it.
\<close>

definition segment :: "nat \<Rightarrow> nat \<Rightarrow> 'a list \<Rightarrow> 'a list" where
  "segment start n v = take n (drop start v)"

definition assign_segment :: "nat \<Rightarrow> nat \<Rightarrow> 'a list \<Rightarrow> 'a list \<Rightarrow> error + 'a list" where
  "assign_segment start n rhs v =
     (if start + n \<le> length v then
        if length rhs = n then Inr (take start v @ rhs @ drop (start + n) v)
        else Inl SizeMismatch
      else Inl OutOfRange)"

definition assign_coeff :: "nat \<Rightarrow> 'a \<Rightarrow> 'a list \<Rightarrow> error + 'a list" where
  "assign_coeff k x v = (if k < length v then Inr (v[k := x]) else Inl OutOfRange)"

definition block :: "nat \<Rightarrow> nat \<Rightarrow> nat \<Rightarrow> nat \<Rightarrow> 'a mat \<Rightarrow> 'a mat" where
  "block startRow startCol h w M =
     \<lparr>nrows = h, columns = map (segment startRow h) (segment startCol w (columns M))\<rparr>"

definition assign_block ::
  "nat \<Rightarrow> nat \<Rightarrow> nat \<Rightarrow> nat \<Rightarrow> 'a mat \<Rightarrow> 'a mat \<Rightarrow> error + 'a mat" where
  "assign_block startRow startCol h w rhs M =
     (if startRow + h \<le> nrows M \<and> startCol + w \<le> ncols M then
        if nrows rhs = h \<and> ncols rhs = w \<and> wf_mat rhs then
          Inr (M\<lparr>columns :=
                 take startCol (columns M)
                 @ map2 (\<lambda>c b. take startRow c @ b @ drop (startRow + h) c)
                     (segment startCol w (columns M)) (columns rhs)
                 @ drop (startCol + w) (columns M)\<rparr>)
        else Inl SizeMismatch
      else Inl OutOfRange)"

definition assign_col :: "nat \<Rightarrow> 'a list \<Rightarrow> 'a mat \<Rightarrow> error + 'a mat" where
  "assign_col j rhs M =
     (if j < ncols M then
        if length rhs = nrows M then Inr (M\<lparr>columns := (columns M)[j := rhs]\<rparr>)
        else Inl SizeMismatch
      else Inl OutOfRange)"

definition assign_entry :: "nat \<Rightarrow> nat \<Rightarrow> 'a \<Rightarrow> 'a mat \<Rightarrow> error + 'a mat" where
  "assign_entry i j x M =
     (if i < nrows M \<and> j < ncols M then
        Inr (M\<lparr>columns := (columns M)[j := (columns M ! j)[i := x]]\<rparr>)
      else Inl OutOfRange)"

definition Identity :: "nat \<Rightarrow> ('a::{zero,one}) mat" where
  "Identity n =
     \<lparr>nrows = n, columns = map (\<lambda>j. map (\<lambda>i. if i = j then 1 else 0) [0..<n]) [0..<n]\<rparr>"

definition smult :: "('a::times) \<Rightarrow> 'a mat \<Rightarrow> 'a mat" where
  "smult k M = M\<lparr>columns := map (map (\<lambda>x. k * x)) (columns M)\<rparr>"

definition Ones :: "nat \<Rightarrow> ('a::one) list" where
  "Ones n = replicate n 1"

text \<open>\<open>a - b\<close> on vectors: Eigen asserts that both sides have the same size.\<close>

definition vec_minus :: "('a::minus) list \<Rightarrow> 'a list \<Rightarrow> error + 'a list" where
  "vec_minus a b = (if length a = length b then Inr (map2 (-) a b) else Inl SizeMismatch)"

section \<open>The simulator\<close>

text \<open>
  Modelled from the spec: \<open>simulation::World\<close> is not among the sources. The spec
  (section 6) lists the operations consumed: get and set positions, velocities and forces,
  and step one tick. The world is a state of an arbitrary type \<open>'w\<close>; each operation that
  mutates the world returns the new one. \<open>RestorableSnapshot\<close> captures the state of the
  world when it is constructed and writes it back when \<open>restore()\<close> is called, as
  \<open>TrajectoryRollout::toJson\<close> does with an explicit call before it returns.
\<close>

record ('w, 'a) World =
  setPositions :: "'a list \<Rightarrow> 'w \<Rightarrow> 'w"
  setVelocities :: "'a list \<Rightarrow> 'w \<Rightarrow> 'w"
  setForces :: "'a list \<Rightarrow> 'w \<Rightarrow> 'w"
  step :: "'w \<Rightarrow> 'w"
  getPositions :: "'w \<Rightarrow> 'a list"
  getVelocities :: "'w \<Rightarrow> 'a list"

definition RestorableSnapshot :: "'w \<Rightarrow> 'w" where
  "RestorableSnapshot world = world"

definition restore :: "'w \<Rightarrow> 'w \<Rightarrow> 'w" where
  "restore snapshot world = snapshot"

section \<open>Single shots\<close>

text \<open>
  Modelled from the spec: \<open>SingleShot.cpp\<close> is not among the sources. The spec (section 3)
  gives a single shot its start position and start velocity in the representation mapping,
  a force matrix with one column per step, and the flag \<open>tuneStartingState\<close>; it is
  constructed from a simulator, a loss, a step count and the flag. The loss plays no part
  in the functions embedded here and is left out. The start state of a new shot is read
  from the simulator and its forces are zero.
\<close>

record 'a SingleShot =
  mSteps :: nat
  mTuneStartingState :: bool
  mStartPos :: "'a list"
  mStartVel :: "'a list"
  mForces :: "'a mat"
  mRepresentationMapping :: Mapping

definition SingleShot_new ::
  "('w, 'a::zero) World \<Rightarrow> 'w \<Rightarrow> Mapping \<Rightarrow> int \<Rightarrow> bool \<Rightarrow> 'a SingleShot" where
  "SingleShot_new W world rep steps tuneStartingState =
     \<lparr>mSteps = nat steps, mTuneStartingState = tuneStartingState,
      mStartPos = getPositions W world, mStartVel = getVelocities W world,
      mForces = Zero (getForceDim rep) (nat steps), mRepresentationMapping = rep\<rparr>"

text \<open>
  Modelled from the spec: the flat layout of a single shot (section 4.4) is, in order, the
  start position and the start velocity when \<open>tuneStartingState\<close> is set, then the force
  vector of each timestep; flatten and unflatten copy contiguous segments in and out of
  this layout. The optional mass block of the spec lives in the simulator, which
  \<open>MultiShot::flatten\<close> and \<open>MultiShot::unflatten\<close> do not pass on: it is empty here.
\<close>

definition SingleShot_getFlatProblemDim :: "'a SingleShot \<Rightarrow> nat" where
  "SingleShot_getFlatProblemDim shot =
     (if SingleShot.mTuneStartingState shot then
        getPosDim (SingleShot.mRepresentationMapping shot)
          + getVelDim (SingleShot.mRepresentationMapping shot)
      else 0)
     + getForceDim (SingleShot.mRepresentationMapping shot) * SingleShot.mSteps shot"

definition SingleShot_flatten :: "'a SingleShot \<Rightarrow> 'a list" where
  "SingleShot_flatten shot =
     (if SingleShot.mTuneStartingState shot then mStartPos shot @ mStartVel shot else [])
     @ concat (columns (SingleShot.mForces shot))"

definition SingleShot_unflatten :: "'a SingleShot \<Rightarrow> 'a list \<Rightarrow> 'a SingleShot" where
  "SingleShot_unflatten shot flat =
     (let posDim = getPosDim (SingleShot.mRepresentationMapping shot);
          velDim = getVelDim (SingleShot.mRepresentationMapping shot);
          forceDim = getForceDim (SingleShot.mRepresentationMapping shot);
          tune = SingleShot.mTuneStartingState shot;
          cursor = (if tune then posDim + velDim else 0)
      in shot\<lparr>mStartPos := (if tune then segment 0 posDim flat else mStartPos shot),
              mStartVel := (if tune then segment posDim velDim flat else mStartVel shot),
              SingleShot.mForces :=
                (SingleShot.mForces shot)\<lparr>columns :=
                   map (\<lambda>t. segment (cursor + t * forceDim) forceDim flat)
                     [0..<SingleShot.mSteps shot]\<rparr>\<rparr>)"

text \<open>
  \<open>SingleShot::getStartState\<close>: "the concatenation of (start pos, start vel)", in the words
  of the comment on \<open>MultiShot::getStartState\<close>, which forwards to it.
\<close>

definition SingleShot_getStartState :: "'a SingleShot \<Rightarrow> 'a list" where
  "SingleShot_getStartState shot = mStartPos shot @ mStartVel shot"

text \<open>
  The methods of \<open>SingleShot\<close> that run the simulator are parameters: the final state of a
  shot, the Jacobian of the final state with respect to the shot's flat vector (written
  into the matrix handed over, whose new content is returned), and the shot's own
  \<open>getStates\<close> (written into three blocks). They are functions of the world and the shot,
  and leave the world as they found it.
\<close>

record ('w, 'a) SingleShot_methods =
  getFinalState :: "'w \<Rightarrow> 'a SingleShot \<Rightarrow> 'a list"
  backpropJacobianOfFinalState :: "'w \<Rightarrow> 'a SingleShot \<Rightarrow> 'a mat \<Rightarrow> 'a mat"
  SingleShot_getStates ::
    "'w \<Rightarrow> 'a SingleShot \<Rightarrow> 'a mat \<times> 'a mat \<times> 'a mat \<Rightarrow> 'a mat \<times> 'a mat \<times> 'a mat"

section \<open>The base class of the multi-shot problem\<close>

text \<open>
  \<open>AbstractShot.cpp\<close> is not among the sources. The methods of the base class that
  \<open>MultiShot\<close> calls are parameters: the number of custom constraints, what the base
  class writes into the segment or block handed to it (the new content, as a function of
  the old), and the number of non-zero Jacobian entries it declares.
\<close>

record ('w, 'a) AbstractShot =
  parent_getConstraintDim :: nat
  parent_computeConstraints :: "'w \<Rightarrow> 'a list \<Rightarrow> 'a list"
  parent_getConstraintUpperBounds :: "'a list \<Rightarrow> 'a list"
  parent_getConstraintLowerBounds :: "'a list \<Rightarrow> 'a list"
  parent_backpropJacobian :: "'w \<Rightarrow> 'a mat \<Rightarrow> 'a mat"
  parent_getNumberNonZeroJacobian :: nat
  parent_getJacobianSparsityStructure :: "nat list \<times> nat list \<Rightarrow> nat list \<times> nat list"

section \<open>Multi-shot problems (MultiShot.cpp)\<close>

record 'a MultiShot =
  mShots :: "'a SingleShot list"
  mShotLength :: int
  mTuneStartingState :: bool
  mSteps :: int
  mRepresentationMapping :: Mapping

subsection \<open>Construction\<close>

text \<open>
  The constructor's \<open>while (stepsRemaining > 0)\<close> loop. It does not terminate for
  \<open>shotLength \<le> 0\<close>, so it is a partial function: \<open>None\<close> stands for a loop that never
  returns. \<open>make_shared\<close> is the constructor of \<open>SingleShot\<close> applied to the world.
\<close>

partial_function (option) MultiShot_loop ::
  "(int \<Rightarrow> bool \<Rightarrow> 'a SingleShot) \<Rightarrow> int \<Rightarrow> bool \<Rightarrow> int \<Rightarrow> bool \<Rightarrow> 'a SingleShot list
    \<Rightarrow> 'a SingleShot list option" where
  "MultiShot_loop make_shared shotLength tuneStartingState stepsRemaining isFirst shots =
     (if stepsRemaining > 0 then
        MultiShot_loop make_shared shotLength tuneStartingState
          (stepsRemaining - min shotLength stepsRemaining) False
          (shots @ [make_shared (min shotLength stepsRemaining)
                      (\<not> isFirst \<or> tuneStartingState)])
      else Some shots)"

definition MultiShot_new ::
  "('w, 'a::zero) World \<Rightarrow> 'w \<Rightarrow> Mapping \<Rightarrow> int \<Rightarrow> int \<Rightarrow> bool \<Rightarrow> 'a MultiShot option" where
  "MultiShot_new W world rep steps shotLength tuneStartingState =
     (case MultiShot_loop (SingleShot_new W world rep) shotLength tuneStartingState
             steps True [] of
        None \<Rightarrow> None
      | Some shots \<Rightarrow>
          Some \<lparr>mShots = shots, mShotLength = shotLength,
                mTuneStartingState = tuneStartingState, mSteps = steps,
                mRepresentationMapping = rep\<rparr>)"

subsection \<open>Dimensions\<close>

definition getFlatProblemDim :: "'a MultiShot \<Rightarrow> nat" where
  "getFlatProblemDim P =
     foldl (\<lambda>sum shot. sum + SingleShot_getFlatProblemDim shot) 0 (mShots P)"

text \<open>
  \<open>mShots.size() - 1\<close> is computed in \<open>size_t\<close>: for an empty list of shots it is
  \<open>2^64 - 1\<close>. The dimensions and cursors below are \<open>int\<close>s that size and index Eigen
  vectors and matrices, which exist only with a size in the range of \<open>int\<close>; they are \<open>nat\<close>
  here. \<open>getConstraintDim\<close> converts its sum back to \<open>int\<close> when it returns: the value here
  is the one of the source when the sum fits an \<open>int\<close>, which requires a shot. The count of
  non-zero Jacobian entries, which sizes no buffer of the program itself, is computed in
  32-bit arithmetic further down.
\<close>

definition size_minus_1 :: "'b list \<Rightarrow> nat" where
  "size_minus_1 xs = (if xs = [] then 2 ^ 64 - 1 else length xs - 1)"

definition stateDim :: "'a MultiShot \<Rightarrow> nat" where
  "stateDim P = getPosDim (mRepresentationMapping P) + getVelDim (mRepresentationMapping P)"

definition getConstraintDim :: "('w, 'a) AbstractShot \<Rightarrow> 'a MultiShot \<Rightarrow> nat" where
  "getConstraintDim A P =
     parent_getConstraintDim A
     + (getPosDim (mRepresentationMapping P) + getVelDim (mRepresentationMapping P))
         * size_minus_1 (mShots P)"

subsection \<open>Flatten and unflatten\<close>

fun flatten_loop :: "'a SingleShot list \<Rightarrow> nat \<Rightarrow> 'a list \<Rightarrow> error + 'a list" where
  "flatten_loop [] cursor flat = Inr flat"
| "flatten_loop (shot # rest) cursor flat =
     (case assign_segment cursor (SingleShot_getFlatProblemDim shot)
             (SingleShot_flatten shot) flat of
        Inl e \<Rightarrow> Inl e
      | Inr flat' \<Rightarrow> flatten_loop rest (cursor + SingleShot_getFlatProblemDim shot) flat')"

definition flatten :: "'a MultiShot \<Rightarrow> 'a list \<Rightarrow> error + 'a list" where
  "flatten P flat = flatten_loop (mShots P) 0 flat"

fun unflatten_loop ::
  "'a SingleShot list \<Rightarrow> nat \<Rightarrow> 'a list \<Rightarrow> error + 'a SingleShot list" where
  "unflatten_loop [] cursor flat = Inr []"
| "unflatten_loop (shot # rest) cursor flat =
     (if cursor + SingleShot_getFlatProblemDim shot \<le> length flat then
        case unflatten_loop rest (cursor + SingleShot_getFlatProblemDim shot) flat of
          Inl e \<Rightarrow> Inl e
        | Inr rest' \<Rightarrow>
            Inr (SingleShot_unflatten shot
                   (segment cursor (SingleShot_getFlatProblemDim shot) flat) # rest')
      else Inl OutOfRange)"

definition unflatten :: "'a MultiShot \<Rightarrow> 'a list \<Rightarrow> error + 'a MultiShot" where
  "unflatten P flat =
     (case unflatten_loop (mShots P) 0 flat of
        Inl e \<Rightarrow> Inl e
      | Inr shots \<Rightarrow> Inr (P\<lparr>mShots := shots\<rparr>))"

subsection \<open>Constraints and their bounds\<close>

function computeConstraints_loop ::
  "('w, 'a::minus) SingleShot_methods \<Rightarrow> 'w \<Rightarrow> 'a MultiShot \<Rightarrow> nat \<Rightarrow> nat \<Rightarrow> 'a list
    \<Rightarrow> error + 'a list" where
  "computeConstraints_loop X world P i cursor constraints =
     (if i < length (mShots P) then
        case vec_minus (getFinalState X world (mShots P ! (i - 1)))
               (SingleShot_getStartState (mShots P ! i)) of
          Inl e \<Rightarrow> Inl e
        | Inr defect \<Rightarrow>
            (case assign_segment cursor
                    (getPosDim (mRepresentationMapping P) + getVelDim (mRepresentationMapping P))
                    defect constraints of
               Inl e \<Rightarrow> Inl e
             | Inr constraints' \<Rightarrow>
                 computeConstraints_loop X world P (i + 1)
                   (cursor + (getPosDim (mRepresentationMapping P)
                              + getVelDim (mRepresentationMapping P)))
                   constraints')
      else Inr constraints)"
  by pat_completeness auto
termination
  by (relation "measure (\<lambda>(X, world, P, i, cursor, constraints). length (mShots P) - i)") auto

declare computeConstraints_loop.simps [simp del]

definition computeConstraints ::
  "('w, 'a::minus) AbstractShot \<Rightarrow> ('w, 'a) SingleShot_methods \<Rightarrow> 'w \<Rightarrow> 'a MultiShot
    \<Rightarrow> 'a list \<Rightarrow> error + 'a list" where
  "computeConstraints A X world P constraints =
     (let numParentConstraints = parent_getConstraintDim A in
      case assign_segment 0 numParentConstraints
             (parent_computeConstraints A world (segment 0 numParentConstraints constraints))
             constraints of
        Inl e \<Rightarrow> Inl e
      | Inr constraints' \<Rightarrow>
          computeConstraints_loop X world P 1 numParentConstraints constraints')"

definition getConstraintUpperBounds ::
  "('w, 'a::zero) AbstractShot \<Rightarrow> 'a MultiShot \<Rightarrow> 'a list \<Rightarrow> error + 'a list" where
  "getConstraintUpperBounds A P flat =
     (let flat0 = VectorZero (length flat) in
      assign_segment 0 (parent_getConstraintDim A)
        (parent_getConstraintUpperBounds A (segment 0 (parent_getConstraintDim A) flat0))
        flat0)"

definition getConstraintLowerBounds ::
  "('w, 'a::zero) AbstractShot \<Rightarrow> 'a MultiShot \<Rightarrow> 'a list \<Rightarrow> error + 'a list" where
  "getConstraintLowerBounds A P flat =
     (let flat0 = VectorZero (length flat) in
      assign_segment 0 (parent_getConstraintDim A)
        (parent_getConstraintLowerBounds A (segment 0 (parent_getConstraintDim A) flat0))
        flat0)"

subsection \<open>The number of non-zero Jacobian entries\<close>

text \<open>
  The count is accumulated in an \<open>int\<close>, and so are \<open>stateDim\<close> and the product
  \<open>shotDim * stateDim\<close>. \<open>int32 x\<close> is the value that a 32-bit two's-complement \<open>int\<close> holds
  after an operation whose exact result is \<open>x\<close>: a result outside the range of \<open>int\<close> wraps
  around. The dimensions of the mapping, the flat dimension of a shot and the count of the
  base class are \<open>int\<close> values returned by functions that are not among the sources; they
  are read as they are.

  The loop \<open>for (int i = 0; i < mShots.size() - 1; i++)\<close> reads \<open>mShots[i]\<close>; with no
  shots at all the bound wraps around and the first read is out of range.
\<close>

definition int32 :: "int \<Rightarrow> int" where
  "int32 x = (x + 2 ^ 31) mod 2 ^ 32 - 2 ^ 31"

function getNumberNonZeroJacobian_loop ::
  "'a MultiShot \<Rightarrow> int \<Rightarrow> nat \<Rightarrow> int \<Rightarrow> error + int" where
  "getNumberNonZeroJacobian_loop P sd i nnzj =
     (if i < size_minus_1 (mShots P) then
        if i < length (mShots P) then
          getNumberNonZeroJacobian_loop P sd (i + 1)
            (int32 (int32 (nnzj
                           + int32 (int (SingleShot_getFlatProblemDim (mShots P ! i)) * sd))
                    + sd))
        else Inl OutOfRange
      else Inr nnzj)"
  by pat_completeness auto
termination
  by (relation "measure (\<lambda>(P, sd, i, nnzj). length (mShots P) - i)") auto

declare getNumberNonZeroJacobian_loop.simps [simp del]

definition getNumberNonZeroJacobian ::
  "('w, 'a) AbstractShot \<Rightarrow> 'a MultiShot \<Rightarrow> error + int" where
  "getNumberNonZeroJacobian A P =
     getNumberNonZeroJacobian_loop P
       (int32 (int (getPosDim (mRepresentationMapping P))
               + int (getVelDim (mRepresentationMapping P))))
       0 (int (parent_getNumberNonZeroJacobian A))"

subsection \<open>Examples\<close>

text \<open>
  A one-degree-of-freedom simulator with unit mass and unit time step (the velocity gains
  the force, the position gains the new velocity), a mapping with one position, one
  velocity and one force coordinate, and a problem of three steps in shots of length two.
  They are the concrete inputs at which the theorems below are evaluated.
\<close>

definition toy_world :: "(int list \<times> int list \<times> int list, int) World" where
  "toy_world =
     \<lparr>setPositions = (\<lambda>p (q, v, f). (p, v, f)),
      setVelocities = (\<lambda>u (q, v, f). (q, u, f)),
      setForces = (\<lambda>g (q, v, f). (q, v, g)),
      step = (\<lambda>(q, v, f). (map2 (+) q (map2 (+) v f), map2 (+) v f, f)),
      getPositions = (\<lambda>(q, v, f). q),
      getVelocities = (\<lambda>(q, v, f). v)\<rparr>"

definition example_mapping :: Mapping where
  "example_mapping = \<lparr>getPosDim = 1, getVelDim = 1, getForceDim = 1\<rparr>"

definition example_shot :: "nat \<Rightarrow> bool \<Rightarrow> int SingleShot" where
  "example_shot n tune =
     \<lparr>SingleShot.mSteps = n, SingleShot.mTuneStartingState = tune,
      mStartPos = [0], mStartVel = [0],
      SingleShot.mForces = Zero 1 n, SingleShot.mRepresentationMapping = example_mapping\<rparr>"

definition example_problem :: "int MultiShot" where
  "example_problem =
     \<lparr>mShots = [example_shot 2 True, example_shot 1 True], mShotLength = 2,
      mTuneStartingState = True, mSteps = 3, mRepresentationMapping = example_mapping\<rparr>"

text \<open>A base class with no custom constraint: it writes nothing and declares nothing.\<close>

definition no_custom_constraints :: "('w, 'a) AbstractShot" where
  "no_custom_constraints =
     \<lparr>parent_getConstraintDim = 0,
      parent_computeConstraints = (\<lambda>world v. v),
      parent_getConstraintUpperBounds = (\<lambda>v. v),
      parent_getConstraintLowerBounds = (\<lambda>v. v),
      parent_backpropJacobian = (\<lambda>world M. M),
      parent_getNumberNonZeroJacobian = 0,
      parent_getJacobianSparsityStructure = (\<lambda>rc. rc)\<rparr>"

text \<open>
  The step counts the spec names for a problem of \<open>steps\<close> steps in shots of length
  \<open>shotLength\<close>: full shots, then the remainder when there is one.
\<close>

definition shot_sizes :: "int \<Rightarrow> int \<Rightarrow> int list" where
  "shot_sizes shotLength steps =
     replicate (nat (steps div shotLength)) shotLength
       @ (if steps mod shotLength = 0 then [] else [steps mod shotLength])"

text \<open>
  Methods of the single shots for the examples: a final state made of the step count of
  the shot and the constant 7, and a final-state Jacobian with the coefficient
  \<open>i + 2 * j + 1\<close> in row \<open>i\<close> and column \<open>j\<close>.
\<close>

definition example_methods :: "('w, int) SingleShot_methods" where
  "example_methods =
     \<lparr>getFinalState = (\<lambda>world shot. [int (SingleShot.mSteps shot), 7]),
      backpropJacobianOfFinalState =
        (\<lambda>world shot M.
           M\<lparr>columns := map (\<lambda>j. map (\<lambda>i. int (i + 2 * j + 1)) [0..<nrows M])
                            [0..<ncols M]\<rparr>),
      SingleShot_getStates = (\<lambda>world shot blocks. blocks)\<rparr>"

subsection \<open>The dense Jacobian\<close>

function backpropJacobian_loop ::
  "('w, 'a::ring_1) SingleShot_methods \<Rightarrow> 'w \<Rightarrow> 'a MultiShot \<Rightarrow> nat \<Rightarrow> nat \<Rightarrow> nat \<Rightarrow> 'a mat
    \<Rightarrow> error + nat \<times> nat \<times> 'a mat" where
  "backpropJacobian_loop X world P i rowCursor colCursor jac =
     (if i < length (mShots P) then
        case assign_block rowCursor colCursor (stateDim P)
               (SingleShot_getFlatProblemDim (mShots P ! (i - 1)))
               (backpropJacobianOfFinalState X world (mShots P ! (i - 1))
                  (block rowCursor colCursor (stateDim P)
                     (SingleShot_getFlatProblemDim (mShots P ! (i - 1))) jac))
               jac of
          Inl e \<Rightarrow> Inl e
        | Inr jac1 \<Rightarrow>
            (case assign_block rowCursor
                    (colCursor + SingleShot_getFlatProblemDim (mShots P ! (i - 1)))
                    (stateDim P) (stateDim P)
                    (smult (- 1) (Identity (stateDim P))) jac1 of
               Inl e \<Rightarrow> Inl e
             | Inr jac2 \<Rightarrow>
                 backpropJacobian_loop X world P (i + 1) (rowCursor + stateDim P)
                   (colCursor + SingleShot_getFlatProblemDim (mShots P ! (i - 1))) jac2)
      else Inr (rowCursor, colCursor, jac))"
  by pat_completeness auto
termination
  by (relation "measure (\<lambda>(X, world, P, i, rowCursor, colCursor, jac). length (mShots P) - i)")
     auto

declare backpropJacobian_loop.simps [simp del]

definition backpropJacobian ::
  "('w, 'a::ring_1) AbstractShot \<Rightarrow> ('w, 'a) SingleShot_methods \<Rightarrow> 'w \<Rightarrow> 'a MultiShot
    \<Rightarrow> 'a mat \<Rightarrow> error + 'a mat" where
  "backpropJacobian A X world P jac =
     (if ncols jac \<noteq> getFlatProblemDim P then
        Inl (AssertionFailed ''jac.cols() == getFlatProblemDim()'')
      else if nrows jac \<noteq> getConstraintDim A P then
        Inl (AssertionFailed ''jac.rows() == getConstraintDim()'')
      else
        case assign_block 0 0 (parent_getConstraintDim A) (getFlatProblemDim P)
               (parent_backpropJacobian A world
                  (block 0 0 (parent_getConstraintDim A) (getFlatProblemDim P)
                     (Zero (nrows jac) (ncols jac))))
               (Zero (nrows jac) (ncols jac)) of
          Inl e \<Rightarrow> Inl e
        | Inr jac1 \<Rightarrow>
            (case backpropJacobian_loop X world P 1 (parent_getConstraintDim A) 0 jac1 of
               Inl e \<Rightarrow> Inl e
             | Inr (rowCursor, colCursor, jac2) \<Rightarrow>
                 if mShots P = [] then Inl OutOfRange
                 else if int colCursor
                      \<noteq> int (ncols jac2) - int (SingleShot_getFlatProblemDim (last (mShots P)))
                 then Inl (AssertionFailed
                   ''colCursor == jac.cols() - mShots[mShots.size() - 1]->getFlatProblemDim()'')
                 else if rowCursor \<noteq> nrows jac2 then
                   Inl (AssertionFailed ''rowCursor == jac.rows()'')
                 else Inr jac2))"

subsection \<open>The sparsity structure\<close>

function getJacobianSparsityStructure_rows ::
  "nat \<Rightarrow> nat \<Rightarrow> nat \<Rightarrow> nat list \<Rightarrow> nat list \<Rightarrow> nat \<Rightarrow> error + nat list \<times> nat list \<times> nat" where
  "getJacobianSparsityStructure_rows row rowEnd col rows cols sparseCursor =
     (if row < rowEnd then
        case assign_coeff sparseCursor row rows of
          Inl e \<Rightarrow> Inl e
        | Inr rows' \<Rightarrow>
            (case assign_coeff sparseCursor col cols of
               Inl e \<Rightarrow> Inl e
             | Inr cols' \<Rightarrow>
                 getJacobianSparsityStructure_rows (row + 1) rowEnd col rows' cols'
                   (sparseCursor + 1))
      else Inr (rows, cols, sparseCursor))"
  by pat_completeness auto
termination
  by (relation "measure (\<lambda>(row, rowEnd, col, rows, cols, sparseCursor). rowEnd - row)") auto

declare getJacobianSparsityStructure_rows.simps [simp del]

function getJacobianSparsityStructure_cols ::
  "nat \<Rightarrow> nat \<Rightarrow> nat \<Rightarrow> nat \<Rightarrow> nat list \<Rightarrow> nat list \<Rightarrow> nat
    \<Rightarrow> error + nat list \<times> nat list \<times> nat" where
  "getJacobianSparsityStructure_cols col colEnd rowCursor sd rows cols sparseCursor =
     (if col < colEnd then
        case getJacobianSparsityStructure_rows rowCursor (rowCursor + sd) col
               rows cols sparseCursor of
          Inl e \<Rightarrow> Inl e
        | Inr (rows', cols', sparseCursor') \<Rightarrow>
            getJacobianSparsityStructure_cols (col + 1) colEnd rowCursor sd
              rows' cols' sparseCursor'
      else Inr (rows, cols, sparseCursor))"
  by pat_completeness auto
termination
  by (relation "measure (\<lambda>(col, colEnd, rowCursor, sd, rows, cols, sparseCursor). colEnd - col)")
     auto

declare getJacobianSparsityStructure_cols.simps [simp del]

function getJacobianSparsityStructure_diag ::
  "nat \<Rightarrow> nat \<Rightarrow> nat \<Rightarrow> nat \<Rightarrow> nat list \<Rightarrow> nat list \<Rightarrow> nat
    \<Rightarrow> error + nat list \<times> nat list \<times> nat" where
  "getJacobianSparsityStructure_diag q sd rowCursor colCursor rows cols sparseCursor =
     (if q < sd then
        case assign_coeff sparseCursor (rowCursor + q) rows of
          Inl e \<Rightarrow> Inl e
        | Inr rows' \<Rightarrow>
            (case assign_coeff sparseCursor (colCursor + q) cols of
               Inl e \<Rightarrow> Inl e
             | Inr cols' \<Rightarrow>
                 getJacobianSparsityStructure_diag (q + 1) sd rowCursor colCursor rows' cols'
                   (sparseCursor + 1))
      else Inr (rows, cols, sparseCursor))"
  by pat_completeness auto
termination
  by (relation "measure (\<lambda>(q, sd, rowCursor, colCursor, rows, cols, sparseCursor). sd - q)") auto

declare getJacobianSparsityStructure_diag.simps [simp del]

function getJacobianSparsityStructure_loop ::
  "'a MultiShot \<Rightarrow> nat \<Rightarrow> nat \<Rightarrow> nat \<Rightarrow> nat list \<Rightarrow> nat list \<Rightarrow> nat
    \<Rightarrow> error + nat list \<times> nat list" where
  "getJacobianSparsityStructure_loop P i rowCursor colCursor rows cols sparseCursor =
     (if i < length (mShots P) then
        case getJacobianSparsityStructure_cols colCursor
               (colCursor + SingleShot_getFlatProblemDim (mShots P ! (i - 1)))
               rowCursor (stateDim P) rows cols sparseCursor of
          Inl e \<Rightarrow> Inl e
        | Inr (rows1, cols1, sparseCursor1) \<Rightarrow>
            (case getJacobianSparsityStructure_diag 0 (stateDim P) rowCursor
                    (colCursor + SingleShot_getFlatProblemDim (mShots P ! (i - 1)))
                    rows1 cols1 sparseCursor1 of
               Inl e \<Rightarrow> Inl e
             | Inr (rows2, cols2, sparseCursor2) \<Rightarrow>
                 getJacobianSparsityStructure_loop P (i + 1) (rowCursor + stateDim P)
                   (colCursor + SingleShot_getFlatProblemDim (mShots P ! (i - 1)))
                   rows2 cols2 sparseCursor2)
      else Inr (rows, cols))"
  by pat_completeness auto
termination
  by (relation "measure (\<lambda>(P, i, rowCursor, colCursor, rows, cols, sparseCursor).
                 length (mShots P) - i)") auto

declare getJacobianSparsityStructure_loop.simps [simp del]

text \<open>
  \<open>sparseCursor\<close> starts at 0 and the source does not move it past the entries of the base
  class: the loop over the knot points starts writing at index 0.
\<close>

definition getJacobianSparsityStructure ::
  "('w, 'a) AbstractShot \<Rightarrow> 'a MultiShot \<Rightarrow> nat list \<Rightarrow> nat list
    \<Rightarrow> error + nat list \<times> nat list" where
  "getJacobianSparsityStructure A P rows cols =
     (let numParentConstraints = parent_getConstraintDim A;
          n = getFlatProblemDim P;
          written = parent_getJacobianSparsityStructure A
                      (segment 0 (n * numParentConstraints) rows,
                       segment 0 (n * numParentConstraints) cols)
      in case assign_segment 0 (n * numParentConstraints) (fst written) rows of
           Inl e \<Rightarrow> Inl e
         | Inr rows1 \<Rightarrow>
             (case assign_segment 0 (n * numParentConstraints) (snd written) cols of
                Inl e \<Rightarrow> Inl e
              | Inr cols1 \<Rightarrow>
                  getJacobianSparsityStructure_loop P 1 numParentConstraints 0 rows1 cols1 0))"

subsection \<open>The sparse Jacobian\<close>

function getSparseJacobian_cols ::
  "'a mat \<Rightarrow> nat \<Rightarrow> nat \<Rightarrow> nat \<Rightarrow> 'a list \<Rightarrow> nat \<Rightarrow> error + 'a list \<times> nat" where
  "getSparseJacobian_cols jac col shotDim sd sparse sparseCursor =
     (if col < shotDim then
        if col < ncols jac then
          case assign_segment sparseCursor sd (columns jac ! col) sparse of
            Inl e \<Rightarrow> Inl e
          | Inr sparse' \<Rightarrow>
              getSparseJacobian_cols jac (col + 1) shotDim sd sparse' (sparseCursor + sd)
        else Inl OutOfRange
      else Inr (sparse, sparseCursor))"
  by pat_completeness auto
termination
  by (relation "measure (\<lambda>(jac, col, shotDim, sd, sparse, sparseCursor). shotDim - col)") auto

declare getSparseJacobian_cols.simps [simp del]

function getSparseJacobian_loop ::
  "('w, 'a::ring_1) SingleShot_methods \<Rightarrow> 'w \<Rightarrow> 'a MultiShot \<Rightarrow> nat \<Rightarrow> 'a list \<Rightarrow> 'a list
    \<Rightarrow> nat \<Rightarrow> error + 'a list" where
  "getSparseJacobian_loop X world P i neg sparse sparseCursor =
     (if i < length (mShots P) then
        case getSparseJacobian_cols
               (backpropJacobianOfFinalState X world (mShots P ! (i - 1))
                  (Zero (stateDim P) (SingleShot_getFlatProblemDim (mShots P ! (i - 1)))))
               0 (SingleShot_getFlatProblemDim (mShots P ! (i - 1))) (stateDim P)
               sparse sparseCursor of
          Inl e \<Rightarrow> Inl e
        | Inr (sparse1, sparseCursor1) \<Rightarrow>
            (case assign_segment sparseCursor1 (stateDim P) neg sparse1 of
               Inl e \<Rightarrow> Inl e
             | Inr sparse2 \<Rightarrow>
                 getSparseJacobian_loop X world P (i + 1) neg sparse2
                   (sparseCursor1 + stateDim P))
      else Inr sparse)"
  by pat_completeness auto
termination
  by (relation "measure (\<lambda>(X, world, P, i, neg, sparse, sparseCursor). length (mShots P) - i)")
     auto

declare getSparseJacobian_loop.simps [simp del]

definition getSparseJacobian ::
  "('w, 'a::ring_1) AbstractShot \<Rightarrow> ('w, 'a) SingleShot_methods \<Rightarrow> 'w \<Rightarrow> 'a MultiShot
    \<Rightarrow> 'a list \<Rightarrow> error + 'a list" where
  "getSparseJacobian A X world P sparse =
     getSparseJacobian_loop X world P 1 (map (\<lambda>x. x * (- 1)) (Ones (stateDim P))) sparse
       (parent_getNumberNonZeroJacobian A)"

subsection \<open>Scattering the sparse Jacobian (test_Trajectory.cpp)\<close>

text \<open>
  \<open>verifySparseJacobian\<close> of the test file: the dense Jacobian, the sparsity structure
  and the sparse values are computed into zero-initialised buffers, the values are
  scattered into a zero matrix at the declared indices, and the two matrices are compared
  with threshold 0. The number of non-zero entries is an \<open>int\<close>; Eigen asserts that the size
  of a vector is not negative.
\<close>

function scatter_loop ::
  "nat \<Rightarrow> nat \<Rightarrow> nat list \<Rightarrow> nat list \<Rightarrow> 'a list \<Rightarrow> 'a mat \<Rightarrow> error + 'a mat" where
  "scatter_loop i numSparse rows cols sparseValues recovered =
     (if i < numSparse then
        if i < length rows \<and> i < length cols \<and> i < length sparseValues then
          case assign_entry (rows ! i) (cols ! i) (sparseValues ! i) recovered of
            Inl e \<Rightarrow> Inl e
          | Inr recovered' \<Rightarrow> scatter_loop (i + 1) numSparse rows cols sparseValues recovered'
        else Inl OutOfRange
      else Inr recovered)"
  by pat_completeness auto
termination
  by (relation "measure (\<lambda>(i, numSparse, rows, cols, sparseValues, recovered). numSparse - i)")
     auto

declare scatter_loop.simps [simp del]

definition verifySparseJacobian ::
  "('w, 'a::ring_1) AbstractShot \<Rightarrow> ('w, 'a) SingleShot_methods \<Rightarrow> 'w \<Rightarrow> 'a MultiShot
    \<Rightarrow> error + bool" where
  "verifySparseJacobian A X world P =
     (case backpropJacobian A X world P (Zero (getConstraintDim A P) (getFlatProblemDim P)) of
        Inl e \<Rightarrow> Inl e
      | Inr analyticalJacobian \<Rightarrow>
     (case getNumberNonZeroJacobian A P of
        Inl e \<Rightarrow> Inl e
      | Inr numSparse \<Rightarrow>
     if numSparse < 0 then Inl (AssertionFailed ''size >= 0'') else
     (case getJacobianSparsityStructure A P (VectorZero (nat numSparse))
             (VectorZero (nat numSparse)) of
        Inl e \<Rightarrow> Inl e
      | Inr (rows, cols) \<Rightarrow>
     (case getSparseJacobian A X world P (VectorZero (nat numSparse)) of
        Inl e \<Rightarrow> Inl e
      | Inr sparseValues \<Rightarrow>
     (case scatter_loop 0 (nat numSparse) rows cols sparseValues
             (Zero (getConstraintDim A P) (getFlatProblemDim P)) of
        Inl e \<Rightarrow> Inl e
      | Inr sparseRecoveredJacobian \<Rightarrow>
          Inr (analyticalJacobian = sparseRecoveredJacobian))))))"

subsection \<open>State reconstruction\<close>

function getStates_steps ::
  "('w, 'a) World \<Rightarrow> 'a SingleShot \<Rightarrow> nat \<Rightarrow> 'w \<Rightarrow> 'a mat \<Rightarrow> 'a mat \<Rightarrow> 'a mat \<Rightarrow> nat
    \<Rightarrow> error + 'w \<times> 'a mat \<times> 'a mat \<times> 'a mat \<times> nat" where
  "getStates_steps W shot j world poses vels forces cursor =
     (if j < SingleShot.mSteps shot then
        if j < ncols (SingleShot.mForces shot) then
          case assign_col cursor
                 (getPositions W
                    (step W (setForces W (columns (SingleShot.mForces shot) ! j) world)))
                 poses of
            Inl e \<Rightarrow> Inl e
          | Inr poses' \<Rightarrow>
          (case assign_col cursor
                 (getVelocities W
                    (step W (setForces W (columns (SingleShot.mForces shot) ! j) world)))
                 vels of
            Inl e \<Rightarrow> Inl e
          | Inr vels' \<Rightarrow>
          (case assign_col cursor (columns (SingleShot.mForces shot) ! j) forces of
            Inl e \<Rightarrow> Inl e
          | Inr forces' \<Rightarrow>
              getStates_steps W shot (j + 1)
                (step W (setForces W (columns (SingleShot.mForces shot) ! j) world))
                poses' vels' forces' (cursor + 1)))
        else Inl OutOfRange
      else Inr (world, poses, vels, forces, cursor))"
  by pat_completeness auto
termination
  by (relation "measure (\<lambda>(W, shot, j, world, poses, vels, forces, cursor).
                 SingleShot.mSteps shot - j)") auto

declare getStates_steps.simps [simp del]

fun getStates_shots ::
  "('w, 'a) World \<Rightarrow> 'a SingleShot list \<Rightarrow> 'w \<Rightarrow> 'a mat \<Rightarrow> 'a mat \<Rightarrow> 'a mat \<Rightarrow> nat
    \<Rightarrow> error + 'w \<times> 'a mat \<times> 'a mat \<times> 'a mat \<times> nat" where
  "getStates_shots W [] world poses vels forces cursor =
     Inr (world, poses, vels, forces, cursor)"
| "getStates_shots W (shot # rest) world poses vels forces cursor =
     (case getStates_steps W shot 0 world poses vels forces cursor of
        Inl e \<Rightarrow> Inl e
      | Inr (world', poses', vels', forces', cursor') \<Rightarrow>
          getStates_shots W rest world' poses' vels' forces' cursor')"

fun getStates_knots ::
  "('w, 'a) SingleShot_methods \<Rightarrow> 'w \<Rightarrow> Mapping \<Rightarrow> 'a SingleShot list
    \<Rightarrow> 'a mat \<Rightarrow> 'a mat \<Rightarrow> 'a mat \<Rightarrow> nat \<Rightarrow> error + 'a mat \<times> 'a mat \<times> 'a mat \<times> nat" where
  "getStates_knots X world rep [] poses vels forces cursor =
     Inr (poses, vels, forces, cursor)"
| "getStates_knots X world rep (shot # rest) poses vels forces cursor =
     (let steps = SingleShot.mSteps shot;
          written = SingleShot_getStates X world shot
                      (block 0 cursor (getPosDim rep) steps poses,
                       block 0 cursor (getVelDim rep) steps vels,
                       block 0 cursor (getForceDim rep) steps forces)
      in case assign_block 0 cursor (getPosDim rep) steps (fst written) poses of
           Inl e \<Rightarrow> Inl e
         | Inr poses' \<Rightarrow>
         (case assign_block 0 cursor (getVelDim rep) steps (fst (snd written)) vels of
           Inl e \<Rightarrow> Inl e
         | Inr vels' \<Rightarrow>
         (case assign_block 0 cursor (getForceDim rep) steps (snd (snd written)) forces of
           Inl e \<Rightarrow> Inl e
         | Inr forces' \<Rightarrow>
             getStates_knots X world rep rest poses' vels' forces' (cursor + steps))))"

text \<open>
  In the branch without knots the snapshot of the world is constructed and never used
  again: the source has no call of \<open>restore\<close> on it. The world returned is the world the
  caller is left with.
\<close>

definition getStates ::
  "('w, 'a) World \<Rightarrow> ('w, 'a) SingleShot_methods \<Rightarrow> 'w \<Rightarrow> 'a MultiShot
    \<Rightarrow> 'a mat \<Rightarrow> 'a mat \<Rightarrow> 'a mat \<Rightarrow> bool \<Rightarrow> error + 'w \<times> 'a mat \<times> 'a mat \<times> 'a mat" where
  "getStates W X world P poses vels forces useKnots =
     (if int (ncols poses) \<noteq> mSteps P then Inl (AssertionFailed ''poses.cols() == mSteps'')
      else if nrows poses \<noteq> getPosDim (mRepresentationMapping P) then
        Inl (AssertionFailed ''poses.rows() == posDim'')
      else if int (ncols vels) \<noteq> mSteps P then Inl (AssertionFailed ''vels.cols() == mSteps'')
      else if nrows vels \<noteq> getVelDim (mRepresentationMapping P) then
        Inl (AssertionFailed ''vels.rows() == velDim'')
      else if int (ncols forces) \<noteq> mSteps P then
        Inl (AssertionFailed ''forces.cols() == mSteps'')
      else if nrows forces \<noteq> getForceDim (mRepresentationMapping P) then
        Inl (AssertionFailed ''forces.rows() == forceDim'')
      else if useKnots then
        case getStates_knots X world (mRepresentationMapping P) (mShots P)
               poses vels forces 0 of
          Inl e \<Rightarrow> Inl e
        | Inr (poses', vels', forces', cursor) \<Rightarrow>
            if int cursor = mSteps P then Inr (world, poses', vels', forces')
            else Inl (AssertionFailed ''cursor == mSteps'')
      else
        let snapshot = RestorableSnapshot world in
        case mShots P of
          [] \<Rightarrow> Inl OutOfRange
        | shot0 # others \<Rightarrow>
            (case getStates_shots W (mShots P)
                    (setVelocities W (mStartVel shot0) (setPositions W (mStartPos shot0) world))
                    poses vels forces 0 of
               Inl e \<Rightarrow> Inl e
             | Inr (world', poses', vels', forces', cursor) \<Rightarrow>
                 if int cursor = mSteps P then Inr (world', poses', vels', forces')
                 else Inl (AssertionFailed ''cursor == mSteps'')))"

text \<open>
  A base class with one custom constraint on the example problem (flat dimension 7): its
  Jacobian row is \<open>1, ..., 7\<close>, it declares the 7 entries of that row, in order, and
  leaves constraint values and bounds as they are.
\<close>

definition one_custom_constraint :: "('w, int) AbstractShot" where
  "one_custom_constraint =
     \<lparr>parent_getConstraintDim = 1,
      parent_computeConstraints = (\<lambda>world v. v),
      parent_getConstraintUpperBounds = (\<lambda>v. v),
      parent_getConstraintLowerBounds = (\<lambda>v. v),
      parent_backpropJacobian =
        (\<lambda>world M. M\<lparr>columns := map (\<lambda>j. [int j + 1]) [0..<ncols M]\<rparr>),
      parent_getNumberNonZeroJacobian = 7,
      parent_getJacobianSparsityStructure =
        (\<lambda>rc. (map (\<lambda>k. 0) (fst rc), [0..<length (snd rc)]))\<rparr>"

text \<open>The example problem after \<open>unflatten [1, 2, 3, 4, 5, 6, 7]\<close>.\<close>

definition example_problem_forced :: "int MultiShot" where
  "example_problem_forced =
     \<lparr>mShots =
        [\<lparr>SingleShot.mSteps = 2, SingleShot.mTuneStartingState = True,
          mStartPos = [1], mStartVel = [2],
          SingleShot.mForces = \<lparr>nrows = 1, columns = [[3], [4]]\<rparr>,
          SingleShot.mRepresentationMapping = example_mapping\<rparr>,
         \<lparr>SingleShot.mSteps = 1, SingleShot.mTuneStartingState = True,
          mStartPos = [5], mStartVel = [6],
          SingleShot.mForces = \<lparr>nrows = 1, columns = [[7]]\<rparr>,
          SingleShot.mRepresentationMapping = example_mapping\<rparr>],
      mShotLength = 2, mTuneStartingState = True, mSteps = 3,
      mRepresentationMapping = example_mapping\<rparr>"

subsection \<open>One continuous simulation\<close>

text \<open>
  The monolithic simulation of the spec: from a world, write each force in turn and step
  once; the result is the list of the worlds after each step. \<open>stored_forces\<close> is the
  concatenation of the stored forces of the shots, one column per step, and
  \<open>write_columns\<close> replaces a run of columns of a matrix.
\<close>

fun simulate :: "('w, 'a) World \<Rightarrow> 'w \<Rightarrow> 'a list list \<Rightarrow> 'w list" where
  "simulate W world [] = []"
| "simulate W world (f # fs) =
     step W (setForces W f world) # simulate W (step W (setForces W f world)) fs"

definition stored_forces :: "'a SingleShot list \<Rightarrow> 'a list list" where
  "stored_forces shots =
     concat (map (\<lambda>shot. take (SingleShot.mSteps shot) (columns (SingleShot.mForces shot)))
               shots)"

definition write_columns :: "nat \<Rightarrow> 'a list list \<Rightarrow> 'a mat \<Rightarrow> 'a mat" where
  "write_columns c vs M =
     M\<lparr>columns := take c (columns M) @ vs @ drop (c + length vs) (columns M)\<rparr>"

subsection \<open>The entries of the knot-point Jacobian\<close>

text \<open>
  The definitions of this subsection are not functions of the program: they name what its
  loops compute, for the proofs about the sparse Jacobian.

  \<open>write_list c vs xs\<close> is \<open>xs\<close> with the entries from index \<open>c\<close> on overwritten by \<open>vs\<close>.
  \<open>put_entry\<close> writes one coefficient of a matrix, \<open>scat\<close> writes a list of entries
  \<open>((row, col), value)\<close> one after the other, and \<open>put_block\<close> writes a whole block;
  \<open>in_range\<close> says that every entry of a list lies inside a matrix.
\<close>

definition write_list :: "nat \<Rightarrow> 'a list \<Rightarrow> 'a list \<Rightarrow> 'a list" where
  "write_list c vs xs = take c xs @ vs @ drop (c + length vs) xs"

definition put_entry :: "nat \<Rightarrow> nat \<Rightarrow> 'a \<Rightarrow> 'a mat \<Rightarrow> 'a mat" where
  "put_entry r c v M = M\<lparr>columns := (columns M)[c := (columns M ! c)[r := v]]\<rparr>"

definition scat :: "((nat \<times> nat) \<times> 'a) list \<Rightarrow> 'a mat \<Rightarrow> 'a mat" where
  "scat T M = fold (\<lambda>t. put_entry (fst (fst t)) (snd (fst t)) (snd t)) T M"

definition put_block :: "nat \<Rightarrow> nat \<Rightarrow> nat \<Rightarrow> nat \<Rightarrow> 'a mat \<Rightarrow> 'a mat \<Rightarrow> 'a mat" where
  "put_block r c h w B M =
     M\<lparr>columns :=
         take c (columns M)
         @ map2 (\<lambda>col b. take r col @ b @ drop (r + h) col) (segment c w (columns M)) (columns B)
         @ drop (c + w) (columns M)\<rparr>"

definition in_range :: "((nat \<times> nat) \<times> 'a) list \<Rightarrow> 'b mat \<Rightarrow> bool" where
  "in_range T M = (\<forall>t \<in> set T. fst (fst t) < nrows M \<and> snd (fst t) < ncols M)"

text \<open>
  \<open>final_jacobian\<close> is the Jacobian of the final state of a shot, written by
  \<open>backpropJacobianOfFinalState\<close> into a zero matrix of \<open>sd\<close> rows and one column per flat
  coordinate of the shot, and \<open>jacobian_ok\<close> says that this matrix has that shape.

  For the knot point after a shot, with the row cursor at \<open>rc\<close> and the column cursor at
  \<open>cc\<close>, \<open>block_triples\<close> lists the entries of the Jacobian block column by column and
  \<open>diag_triples\<close> the diagonal of the negative identity that follows it; \<open>knot_triples\<close>
  lists the entries of all knot points in the order of the loops.
\<close>

definition final_jacobian ::
  "('w, 'a::ring_1) SingleShot_methods \<Rightarrow> 'w \<Rightarrow> nat \<Rightarrow> 'a SingleShot \<Rightarrow> 'a mat" where
  "final_jacobian X world sd shot =
     backpropJacobianOfFinalState X world shot (Zero sd (SingleShot_getFlatProblemDim shot))"

definition jacobian_ok ::
  "('w, 'a::ring_1) SingleShot_methods \<Rightarrow> 'w \<Rightarrow> nat \<Rightarrow> 'a SingleShot \<Rightarrow> bool" where
  "jacobian_ok X world sd shot =
     (wf_mat (final_jacobian X world sd shot)
      \<and> nrows (final_jacobian X world sd shot) = sd
      \<and> ncols (final_jacobian X world sd shot) = SingleShot_getFlatProblemDim shot)"

definition block_triples :: "'a mat \<Rightarrow> nat \<Rightarrow> nat \<Rightarrow> nat \<Rightarrow> nat \<Rightarrow> ((nat \<times> nat) \<times> 'a) list" where
  "block_triples J sd d rc cc =
     concat (map (\<lambda>b. map (\<lambda>a. ((rc + a, cc + b), coeff J a b)) [0..<sd]) [0..<d])"

definition diag_triples :: "nat \<Rightarrow> nat \<Rightarrow> nat \<Rightarrow> ((nat \<times> nat) \<times> 'a::ring_1) list" where
  "diag_triples sd rc cc = map (\<lambda>q. ((rc + q, cc + q), 1 * (- 1))) [0..<sd]"

fun knot_triples ::
  "('w, 'a::ring_1) SingleShot_methods \<Rightarrow> 'w \<Rightarrow> nat \<Rightarrow> nat \<Rightarrow> nat \<Rightarrow> 'a SingleShot list
    \<Rightarrow> ((nat \<times> nat) \<times> 'a) list" where
  "knot_triples X world sd rc cc [] = []"
| "knot_triples X world sd rc cc (shot # rest) =
     block_triples (final_jacobian X world sd shot) sd (SingleShot_getFlatProblemDim shot) rc cc
     @ diag_triples sd rc (cc + SingleShot_getFlatProblemDim shot)
     @ knot_triples X world sd (rc + sd) (cc + SingleShot_getFlatProblemDim shot) rest"

text \<open>
  \<open>zero_below r M\<close>: every row of \<open>M\<close> from row \<open>r\<close> on is zero. \<open>fits\<close>: the blocks of
  the knot points after the given shots, starting at row \<open>rc\<close> and column \<open>cc\<close>, lie inside
  a matrix of \<open>nr\<close> rows and \<open>nc\<close> columns.
\<close>

definition zero_below :: "nat \<Rightarrow> ('a::zero) mat \<Rightarrow> bool" where
  "zero_below r M = (\<forall>j \<in> {0..<ncols M}. \<forall>i \<in> {r..<nrows M}. coeff M i j = 0)"

fun fits :: "nat \<Rightarrow> nat \<Rightarrow> nat \<Rightarrow> 'a SingleShot list \<Rightarrow> nat \<Rightarrow> nat \<Rightarrow> bool" where
  "fits sd rc cc [] nr nc = True"
| "fits sd rc cc (shot # rest) nr nc =
     (rc + sd \<le> nr \<and> cc + SingleShot_getFlatProblemDim shot + sd \<le> nc
      \<and> fits sd (rc + sd) (cc + SingleShot_getFlatProblemDim shot) rest nr nc)"

section \<open>Properties of the rollout buffers\<close>

lemma TrajectoryRolloutReal_loop_other:
  "name \<notin> fst ` set mappings \<Longrightarrow>
   mPoses (TrajectoryRolloutReal_loop mappings steps r) name = mPoses r name \<and>
   mVels (TrajectoryRolloutReal_loop mappings steps r) name = mVels r name \<and>
   TrajectoryRolloutReal.mForces (TrajectoryRolloutReal_loop mappings steps r) name = TrajectoryRolloutReal.mForces r name"
  by (induction mappings arbitrary: r) auto

lemma TrajectoryRolloutReal_loop_member:
  "distinct (map fst mappings) \<Longrightarrow> (name, m) \<in> set mappings \<Longrightarrow>
   mPoses (TrajectoryRolloutReal_loop mappings steps r) name = Some (Zero (getPosDim m) steps) \<and>
   mVels (TrajectoryRolloutReal_loop mappings steps r) name = Some (Zero (getVelDim m) steps) \<and>
   TrajectoryRolloutReal.mForces (TrajectoryRolloutReal_loop mappings steps r) name
     = Some (Zero (getForceDim m) steps)"
proof (induction mappings arbitrary: r)
  case Nil
  then show ?case by simp
next
  case (Cons pair rest)
  show ?case
  proof (cases "pair = (name, m)")
    case True
    with Cons.prems have "name \<notin> fst ` set rest" by auto
    with True show ?thesis
      by (simp add: TrajectoryRolloutReal_loop_other)
  next
    case False
    with Cons.prems have "distinct (map fst rest)" "(name, m) \<in> set rest" by auto
    then show ?thesis
      using Cons.IH by simp
  qed
qed

lemma TrajectoryRolloutReal_loop_masses:
  "mMasses (TrajectoryRolloutReal_loop mappings steps r) = mMasses r"
  by (induction mappings arbitrary: r) auto

lemma Zero_shape:
  "nrows (Zero r c) = r \<and> ncols (Zero r c) = c \<and>
   (\<forall>col \<in> set (columns (Zero r c)). col = replicate r 0)"
  by (simp add: Zero_def ncols_def)

text \<open>
  C10. A freshly constructed owning rollout holds, for every registered mapping \<open>m\<close> (the
  keys of the \<open>unordered_map\<close> handed to the constructor are distinct), a poses, a vels and a
  forces matrix with \<open>posDim m\<close>, \<open>velDim m\<close> and \<open>forceDim m\<close> rows, exactly \<open>steps\<close>
  columns each, and every coefficient zero; its mass vector has length \<open>massDim\<close> and is
  all zero.
\<close>

theorem fresh_rollout_is_zero:
  fixes mappings :: "(string \<times> Mapping) list" and metadata :: "(string \<times> ('a::zero) mat) list"
  assumes "distinct (map fst mappings)" and "(name, m) \<in> set mappings"
    and r: "r = TrajectoryRolloutReal_new mappings steps rep massDim metadata"
  shows "\<exists>P V F. mPoses r name = Some P \<and> mVels r name = Some V \<and> TrajectoryRolloutReal.mForces r name = Some F
           \<and> nrows P = getPosDim m \<and> ncols P = steps
           \<and> nrows V = getVelDim m \<and> ncols V = steps
           \<and> nrows F = getForceDim m \<and> ncols F = steps
           \<and> (\<forall>col \<in> set (columns P). col = replicate (getPosDim m) 0)
           \<and> (\<forall>col \<in> set (columns V). col = replicate (getVelDim m) 0)
           \<and> (\<forall>col \<in> set (columns F). col = replicate (getForceDim m) 0)
           \<and> mMasses r = replicate massDim 0"
proof -
  let ?r1 = "TrajectoryRolloutReal_loop mappings steps
      \<lparr>mPoses = Map.empty, mVels = Map.empty, TrajectoryRolloutReal.mForces = Map.empty,
       mMasses = [], mMetadata = metadata,
       TrajectoryRolloutReal.mRepresentationMapping = rep, mMappings = []\<rparr>"
  have r': "r = ?r1\<lparr>mMasses := VectorZero massDim\<rparr>"
    by (simp add: r TrajectoryRolloutReal_new_def)
  note member = TrajectoryRolloutReal_loop_member [OF assms(1,2), where steps = steps
      and r = "\<lparr>mPoses = Map.empty, mVels = Map.empty, TrajectoryRolloutReal.mForces = Map.empty,
       mMasses = [], mMetadata = metadata,
       TrajectoryRolloutReal.mRepresentationMapping = rep, mMappings = []\<rparr>"]
  have "mPoses r name = Some (Zero (getPosDim m) steps)"
    and "mVels r name = Some (Zero (getVelDim m) steps)"
    and "TrajectoryRolloutReal.mForces r name = Some (Zero (getForceDim m) steps)"
    using member by (simp_all add: r')
  moreover have "mMasses r = replicate massDim 0"
    by (simp add: r' VectorZero_def TrajectoryRolloutReal_loop_masses)
  ultimately show ?thesis
    using Zero_shape by fastforce
qed

theorem fresh_rollout_is_zero_witness:
  "\<exists>P V F.
     mPoses (TrajectoryRolloutReal_new
        [(''identity'', \<lparr>getPosDim = 2, getVelDim = 2, getForceDim = 1\<rparr>)] 3 ''identity'' 1
        ([] :: (string \<times> int mat) list)) ''identity'' = Some P
     \<and> mVels (TrajectoryRolloutReal_new
        [(''identity'', \<lparr>getPosDim = 2, getVelDim = 2, getForceDim = 1\<rparr>)] 3 ''identity'' 1
        ([] :: (string \<times> int mat) list)) ''identity'' = Some V
     \<and> TrajectoryRolloutReal.mForces (TrajectoryRolloutReal_new
        [(''identity'', \<lparr>getPosDim = 2, getVelDim = 2, getForceDim = 1\<rparr>)] 3 ''identity'' 1
        ([] :: (string \<times> int mat) list)) ''identity'' = Some F
     \<and> P = \<lparr>nrows = 2, columns = [[0, 0], [0, 0], [0, 0]]\<rparr>
     \<and> V = \<lparr>nrows = 2, columns = [[0, 0], [0, 0], [0, 0]]\<rparr>
     \<and> F = \<lparr>nrows = 1, columns = [[0], [0], [0]]\<rparr>
     \<and> mMasses (TrajectoryRolloutReal_new
        [(''identity'', \<lparr>getPosDim = 2, getVelDim = 2, getForceDim = 1\<rparr>)] 3 ''identity'' 1
        ([] :: (string \<times> int mat) list)) = [0]"
proof -
  let ?m = "\<lparr>getPosDim = 2, getVelDim = 2, getForceDim = 1\<rparr>"
  let ?r = "TrajectoryRolloutReal_new [(''identity'', ?m)] 3 ''identity'' 1
              ([] :: (string \<times> int mat) list)"
  have d: "distinct (map fst [(''identity'', ?m)])" by simp
  have i: "(''identity'', ?m) \<in> set [(''identity'', ?m)]" by simp
  from fresh_rollout_is_zero [OF d i refl, of 3 "''identity''" 1 "[] :: (string \<times> int mat) list"]
  obtain P V F where h: "mPoses ?r ''identity'' = Some P" "mVels ?r ''identity'' = Some V"
    "TrajectoryRolloutReal.mForces ?r ''identity'' = Some F" "mMasses ?r = replicate 1 0"
    by auto
  have "mPoses ?r ''identity'' = Some \<lparr>nrows = 2, columns = [[0, 0], [0, 0], [0, 0]]\<rparr>"
    "mVels ?r ''identity'' = Some \<lparr>nrows = 2, columns = [[0, 0], [0, 0], [0, 0]]\<rparr>"
    "TrajectoryRolloutReal.mForces ?r ''identity'' = Some \<lparr>nrows = 1, columns = [[0], [0], [0]]\<rparr>"
    by (simp_all add: TrajectoryRolloutReal_new_def Zero_def numeral_eq_Suc)
  with h show ?thesis by simp
qed

text \<open>
  C9. For a key that is not in the metadata map, \<open>getMetadata\<close> returns the zero matrix
  with no rows and no columns (\<open>Zero(0, 0)\<close>, which has no coefficient at all) and prints
  the warning followed by one line per key of the map, so the keys listed are exactly the
  keys that exist; for a key that is in the map it returns the stored matrix and prints
  nothing. The method is \<open>const\<close>: it has no way to change the map.
\<close>

theorem getMetadata_missing_or_stored:
  fixes r :: "('a::zero) TrajectoryRolloutReal"
  assumes "distinct (map fst (mMetadata r))"
  shows "(key \<notin> fst ` set (mMetadata r) \<longrightarrow>
            fst (getMetadata r key) = Zero 0 0
          \<and> nrows (fst (getMetadata r key)) = 0 \<and> ncols (fst (getMetadata r key)) = 0
          \<and> snd (getMetadata r key)
              = metadata_warning key # map (\<lambda>pair. metadata_key_line (fst pair)) (mMetadata r)
          \<and> length (snd (getMetadata r key)) = 1 + length (mMetadata r))
       \<and> ((key, value) \<in> set (mMetadata r) \<longrightarrow> getMetadata r key = (value, []))"
proof (intro conjI impI)
  assume k: "key \<notin> fst ` set (mMetadata r)"
  then have n: "map_of (mMetadata r) key = None"
    by (simp add: map_of_eq_None_iff)
  show "fst (getMetadata r key) = Zero 0 0"
    by (simp add: getMetadata_def n)
  show "nrows (fst (getMetadata r key)) = 0"
    by (simp add: getMetadata_def n Zero_def)
  show "ncols (fst (getMetadata r key)) = 0"
    by (simp add: getMetadata_def n Zero_def ncols_def)
  show "snd (getMetadata r key)
      = metadata_warning key # map (\<lambda>pair. metadata_key_line (fst pair)) (mMetadata r)"
    by (simp add: getMetadata_def n)
  show "length (snd (getMetadata r key)) = 1 + length (mMetadata r)"
    by (simp add: getMetadata_def n)
next
  assume "(key, value) \<in> set (mMetadata r)"
  with assms have "map_of (mMetadata r) key = Some value"
    by simp
  then show "getMetadata r key = (value, [])"
    by (simp add: getMetadata_def)
qed

theorem getMetadata_missing_or_stored_witness:
  "getMetadata \<lparr>mPoses = Map.empty, mVels = Map.empty, TrajectoryRolloutReal.mForces = Map.empty, mMasses = [],
       mMetadata = [(''a'', \<lparr>nrows = 1, columns = [[7::int]]\<rparr>)],
       TrajectoryRolloutReal.mRepresentationMapping = ''identity'', mMappings = []\<rparr> ''b''
     = (\<lparr>nrows = 0, columns = []\<rparr>,
        [''Warning: Asking TrajectoryRollout for metadata key \"b\" that doesn't exist! Keys that do exist:'',
         ''   - \"a\"''])
   \<and> getMetadata \<lparr>mPoses = Map.empty, mVels = Map.empty, TrajectoryRolloutReal.mForces = Map.empty, mMasses = [],
       mMetadata = [(''a'', \<lparr>nrows = 1, columns = [[7::int]]\<rparr>)],
       TrajectoryRolloutReal.mRepresentationMapping = ''identity'', mMappings = []\<rparr> ''a''
     = (\<lparr>nrows = 1, columns = [[7]]\<rparr>, [])"
proof -
  let ?r = "\<lparr>mPoses = Map.empty, mVels = Map.empty, TrajectoryRolloutReal.mForces = Map.empty, mMasses = [],
       mMetadata = [(''a'', \<lparr>nrows = 1, columns = [[7::int]]\<rparr>)],
       TrajectoryRolloutReal.mRepresentationMapping = ''identity'', mMappings = []\<rparr>"
  have d: "distinct (map fst (mMetadata ?r))" by simp
  have 1: "''b'' \<notin> fst ` set (mMetadata ?r)" by simp
  have 2: "(''a'', \<lparr>nrows = 1, columns = [[7::int]]\<rparr>) \<in> set (mMetadata ?r)" by simp
  from getMetadata_missing_or_stored [OF d, of "''b''" "\<lparr>nrows = 1, columns = [[7::int]]\<rparr>"] 1
  have a: "getMetadata ?r ''b''
      = (Zero 0 0, metadata_warning ''b'' # map (\<lambda>pair. metadata_key_line (fst pair)) (mMetadata ?r))"
    by (metis prod.collapse)
  from getMetadata_missing_or_stored [OF d, of "''a''" "\<lparr>nrows = 1, columns = [[7::int]]\<rparr>"] 2
  have b: "getMetadata ?r ''a'' = (\<lparr>nrows = 1, columns = [[7::int]]\<rparr>, [])"
    by blast
  show ?thesis
    unfolding a b by (simp add: Zero_def metadata_warning_def metadata_key_line_def)
qed

text \<open>
  C8. Every mutable entry point of a const slice (\<open>getPoses\<close>, \<open>getVels\<close>,
  \<open>getForces\<close>, \<open>getMasses\<close>, \<open>setMetadata\<close>) fails its assertion for every slice, every
  mapping name and every key and value: none of them ever returns data.
\<close>

theorem const_slice_mutators_never_return:
  "(\<forall>M. ConstRef_getPoses r mapping \<noteq> Inr M)
   \<and> (\<forall>M. ConstRef_getVels r mapping \<noteq> Inr M)
   \<and> (\<forall>M. ConstRef_getForces r mapping \<noteq> Inr M)
   \<and> (\<forall>v. ConstRef_getMasses r \<noteq> Inr v)
   \<and> (\<forall>r'. ConstRef_setMetadata r key value \<noteq> Inr r')
   \<and> ConstRef_getPoses r mapping = Inl (AssertionFailed const_ref_message)
   \<and> ConstRef_getVels r mapping = Inl (AssertionFailed const_ref_message)
   \<and> ConstRef_getForces r mapping = Inl (AssertionFailed const_ref_message)
   \<and> ConstRef_getMasses r = Inl (AssertionFailed const_ref_message)
   \<and> ConstRef_setMetadata r key value = Inl (AssertionFailed const_ref_message)"
  by (simp add: ConstRef_getPoses_def ConstRef_getVels_def ConstRef_getForces_def
      ConstRef_getMasses_def ConstRef_setMetadata_def)

section \<open>Construction of a multi-shot problem\<close>

lemma div_step:
  assumes "1 \<le> (L::int)" "L \<le> n"
  shows "nat (n div L) = Suc (nat ((n - L) div L))"
proof -
  have "n div L = (n - L) div L + 1" using assms
    by (metis add.commute diff_add_cancel div_add_self1 not_one_le_zero)
  moreover have "(n - L) div L \<ge> 0" using assms by (simp add: pos_imp_zdiv_nonneg_iff)
  ultimately show ?thesis by simp
qed

lemma shot_sizes_step:
  assumes "1 \<le> L" "L \<le> n"
  shows "shot_sizes L n = L # shot_sizes L (n - L)"
proof -
  have "n mod L = (n - L) mod L" by simp
  with div_step [OF assms] show ?thesis by (simp add: shot_sizes_def)
qed

lemma shot_sizes_last:
  assumes "0 < n" "n < L"
  shows "shot_sizes L n = [n]"
  using assms by (simp add: shot_sizes_def)

lemma shot_sizes_0: "shot_sizes L 0 = []"
  by (simp add: shot_sizes_def)

lemma MultiShot_loop_not_first:
  assumes "1 \<le> L" "0 \<le> n"
  shows "MultiShot_loop mk L tune n False acc = Some (acc @ map (\<lambda>k. mk k True) (shot_sizes L n))"
  using assms(2)
proof (induction "nat n" arbitrary: n acc rule: less_induct)
  case less
  show ?case
  proof (cases "n = 0")
    case True
    then show ?thesis by (subst MultiShot_loop.simps) (simp add: shot_sizes_0)
  next
    case False
    with less.prems have pos: "0 < n" by simp
    show ?thesis
    proof (cases "L \<le> n")
      case True
      then have m: "min L n = L" by simp
      have "nat (n - L) < nat n" using assms(1) pos by simp
      from less.hyps [OF this] True
      have "MultiShot_loop mk L tune (n - L) False (acc @ [mk L True])
          = Some ((acc @ [mk L True]) @ map (\<lambda>k. mk k True) (shot_sizes L (n - L)))"
        by simp
      then show ?thesis
        by (subst MultiShot_loop.simps) (simp add: pos m shot_sizes_step [OF assms(1) True])
    next
      case False
      then have m: "min L n = n" by simp
      have "MultiShot_loop mk L tune 0 False (acc @ [mk n True]) = Some (acc @ [mk n True])"
        by (subst MultiShot_loop.simps) simp
      then show ?thesis using False pos
        by (subst MultiShot_loop.simps) (simp add: m shot_sizes_last)
    qed
  qed
qed

lemma MultiShot_loop_first:
  assumes "1 \<le> L" "1 \<le> n"
  shows "MultiShot_loop mk L tune n True [] 
     = Some (mk (hd (shot_sizes L n)) tune # map (\<lambda>k. mk k True) (tl (shot_sizes L n)))"
proof (cases "L \<le> n")
  case True
  then have m: "min L n = L" by simp
  have "0 \<le> n - L" using True by simp
  from MultiShot_loop_not_first [OF assms(1) this, of mk tune "[mk L tune]"]
  show ?thesis using assms
    by (subst MultiShot_loop.simps) (simp add: m shot_sizes_step [OF assms(1) True])
next
  case False
  then have m: "min L n = n" by simp
  from MultiShot_loop_not_first [OF assms(1), of 0 mk tune "[mk n tune]"]
  show ?thesis using assms False
    by (subst MultiShot_loop.simps) (simp add: m shot_sizes_last shot_sizes_0)
qed

lemma shot_sizes_sum: 
  assumes "1 \<le> L" "0 \<le> n" 
  shows "sum_list (shot_sizes L n) = n"
proof -
  have "0 \<le> n div L" using assms by (simp add: pos_imp_zdiv_nonneg_iff)
  then have "sum_list (replicate (nat (n div L)) L) = n div L * L"
    by (simp add: sum_list_replicate)
  moreover have "n div L * L + n mod L = n" by simp
  ultimately show ?thesis
    by (cases "n mod L = 0") (simp_all add: shot_sizes_def)
qed

lemma shot_sizes_length: 
  assumes "1 \<le> L" "0 \<le> n" 
  shows "int (length (shot_sizes L n)) = \<lceil>real_of_int n / real_of_int L\<rceil>"
proof -
  have d: "0 \<le> n div L" using assms by (simp add: pos_imp_zdiv_nonneg_iff)
  have "\<lceil>real_of_int n / real_of_int L\<rceil> = - ((- n) div L)"
    by (rule ceiling_divide_eq_div)
  also have "\<dots> = (if n mod L = 0 then n div L else n div L + 1)"
    using assms by (simp add: zdiv_zminus1_eq_if)
  finally show ?thesis using d
    by (simp add: shot_sizes_def)
qed

lemma shot_sizes_pos: "1 \<le> L \<Longrightarrow> 0 \<le> n \<Longrightarrow> k \<in> set (shot_sizes L n) \<Longrightarrow> 0 < k"
  by (auto simp: shot_sizes_def split: if_splits intro: le_neq_trans)

lemma shot_sizes_nonempty:
  assumes "1 \<le> L" "1 \<le> n"
  shows "shot_sizes L n \<noteq> []"
proof (cases "L \<le> n")
  case True
  then show ?thesis by (simp add: shot_sizes_step [OF assms(1)])
next
  case False
  then show ?thesis using assms by (simp add: shot_sizes_last)
qed

lemma SingleShot_new_fields:
  "SingleShot.mSteps (SingleShot_new W world rep k t) = nat k"
  "SingleShot.mTuneStartingState (SingleShot_new W world rep k t) = t"
  by (simp_all add: SingleShot_new_def)

text \<open>
  C5. For \<open>totalSteps \<ge> 1\<close> and \<open>shotLength \<ge> 1\<close> the constructor returns, with exactly
  \<open>\<lceil>totalSteps / shotLength\<rceil>\<close> single shots whose step counts are \<open>shotLength\<close>, ...,
  \<open>shotLength\<close> followed by the remainder when it is not zero, and sum to \<open>totalSteps\<close>;
  the first shot's \<open>tuneStartingState\<close> is the flag handed in and every later shot's is
  true.
\<close>

theorem MultiShot_new_shots:
  assumes "1 \<le> steps" and "1 \<le> shotLength"
  shows "\<exists>P. MultiShot_new W world rep steps shotLength tuneStartingState = Some P
           \<and> int (length (mShots P)) = \<lceil>real_of_int steps / real_of_int shotLength\<rceil>
           \<and> map (\<lambda>shot. int (SingleShot.mSteps shot)) (mShots P)
               = replicate (nat (steps div shotLength)) shotLength
                 @ (if steps mod shotLength = 0 then [] else [steps mod shotLength])
           \<and> sum_list (map (\<lambda>shot. int (SingleShot.mSteps shot)) (mShots P)) = steps
           \<and> mShots P \<noteq> []
           \<and> SingleShot.mTuneStartingState (hd (mShots P)) = tuneStartingState
           \<and> list_all SingleShot.mTuneStartingState (tl (mShots P))"
proof -
  let ?mk = "SingleShot_new W world rep"
  let ?sizes = "shot_sizes shotLength steps"
  let ?shots = "?mk (hd ?sizes) tuneStartingState # map (\<lambda>k. ?mk k True) (tl ?sizes)"
  let ?P = "\<lparr>mShots = ?shots, mShotLength = shotLength,
             mTuneStartingState = tuneStartingState, mSteps = steps,
             mRepresentationMapping = rep\<rparr>"
  have n0: "0 \<le> steps" using assms by simp
  have ne: "?sizes \<noteq> []" by (rule shot_sizes_nonempty [OF assms(2,1)])
  have new: "MultiShot_new W world rep steps shotLength tuneStartingState = Some ?P"
    by (simp add: MultiShot_new_def MultiShot_loop_first [OF assms(2,1)])
  have pos: "\<forall>k \<in> set ?sizes. 0 < k"
    using shot_sizes_pos [OF assms(2) n0] by blast
  have "map (\<lambda>shot. int (SingleShot.mSteps shot)) ?shots = map (\<lambda>k. int (nat k)) (hd ?sizes # tl ?sizes)"
    by (simp add: SingleShot_new_fields comp_def)
  also have "\<dots> = map (\<lambda>k. int (nat k)) ?sizes" using ne by simp
  also have "\<dots> = ?sizes" using pos by (intro map_idI) auto
  finally have sizes: "map (\<lambda>shot. int (SingleShot.mSteps shot)) ?shots = ?sizes" .
  have len: "int (length ?shots) = \<lceil>real_of_int steps / real_of_int shotLength\<rceil>"
    using shot_sizes_length [OF assms(2) n0] ne
    by (metis length_map sizes)
  have tl: "list_all SingleShot.mTuneStartingState (tl ?shots)"
    by (simp add: list_all_iff SingleShot_new_fields)
  show ?thesis
    apply (rule exI [of _ ?P])
    apply (intro conjI)
          apply (rule new)
    using len apply simp
    using sizes apply (simp add: shot_sizes_def)
    using sizes shot_sizes_sum [OF assms(2) n0] apply simp
      apply simp
     apply (simp add: SingleShot_new_fields)
    using tl apply simp
    done
qed

theorem MultiShot_new_shots_witness:
  "\<exists>P. MultiShot_new toy_world ([0], [0], [0]) example_mapping 5 2 False = Some P
        \<and> length (mShots P) = 3
        \<and> map SingleShot.mSteps (mShots P) = [2, 2, 1]
        \<and> map SingleShot.mTuneStartingState (mShots P) = [False, True, True]"
proof -
  have s: "(1::int) \<le> 5" and l: "(1::int) \<le> 2" by simp_all
  from MultiShot_new_shots [OF s l, of toy_world "([0], [0], [0])" example_mapping False]
  obtain P where new: "MultiShot_new toy_world ([0], [0], [0]) example_mapping 5 2 False = Some P"
    and sizes: "map (\<lambda>shot. int (SingleShot.mSteps shot)) (mShots P)
         = replicate (nat (5 div 2)) (2::int) @ (if (5::int) mod 2 = 0 then [] else [5 mod 2])"
    and first: "SingleShot.mTuneStartingState (hd (mShots P)) = False"
    and others: "list_all SingleShot.mTuneStartingState (tl (mShots P))"
    by blast
  from sizes have "map (\<lambda>shot. int (SingleShot.mSteps shot)) (mShots P) = [2, 2, 1]"
    by (simp add: numeral_eq_Suc)
  then obtain a b c where abc: "mShots P = [a, b, c]"
    and st: "SingleShot.mSteps a = 2" "SingleShot.mSteps b = 2" "SingleShot.mSteps c = 1"
    by auto
  with first others new show ?thesis by simp
qed


section \<open>The number of non-zero Jacobian entries of a multi-shot problem\<close>

lemma int32_id: "0 \<le> x \<Longrightarrow> x < 2 ^ 31 \<Longrightarrow> int32 x = x"
  by (simp add: int32_def)

lemma getNumberNonZeroJacobian_loop_sum:
  assumes "mShots P \<noteq> []" and "i \<le> length (mShots P) - 1"
    and "0 \<le> nnzj"
    and "nnzj + int (\<Sum>k = i..<length (mShots P) - 1.
                       SingleShot_getFlatProblemDim (mShots P ! k) * stateDim P + stateDim P)
           < 2 ^ 31"
    and "sd = int32 (int (stateDim P))"
  shows "getNumberNonZeroJacobian_loop P sd i nnzj
     = Inr (nnzj + int (\<Sum>k = i..<length (mShots P) - 1.
                      SingleShot_getFlatProblemDim (mShots P ! k) * stateDim P + stateDim P))"
  using assms
proof (induction P sd i nnzj rule: getNumberNonZeroJacobian_loop.induct)
  case (1 P sd i nnzj)
  let ?N = "length (mShots P)"
  let ?S = "stateDim P"
  let ?f = "\<lambda>k. SingleShot_getFlatProblemDim (mShots P ! k) * ?S + ?S"
  have b: "size_minus_1 (mShots P) = ?N - 1"
    using "1.prems" by (simp add: size_minus_1_def)
  show ?case
  proof (cases "i < ?N - 1")
    case True
    then have il: "i < ?N" by simp
    have ib: "i < size_minus_1 (mShots P)" using True b by simp
    let ?d = "SingleShot_getFlatProblemDim (mShots P ! i)"
    let ?rest = "\<Sum>k = i + 1..<?N - 1. ?f k"
    let ?next = "int32 (int32 (nnzj + int32 (int ?d * sd)) + sd)"
    have sum: "(\<Sum>k = i..<?N - 1. ?f k) = ?d * ?S + ?S + ?rest"
      using True by (simp add: sum.atLeast_Suc_lessThan)
    define p where "p = int (?d * ?S)"
    define q where "q = int ?S"
    define r where "r = int ?rest"
    have nonneg: "0 \<le> p" "0 \<le> q" "0 \<le> r"
      by (simp_all only: p_def q_def r_def of_nat_0_le_iff)
    have bound: "nnzj + p + q + r < 2 ^ 31"
      using "1.prems"(4) unfolding sum of_nat_add p_def q_def r_def by (simp only: add.assoc)
    have nn: "0 \<le> nnzj" by (rule "1.prems"(3))
    have "int32 q = q"
      using nonneg nn bound by (intro int32_id) linarith+
    then have sd: "sd = q" using "1.prems"(5) by (simp only: q_def)
    have pq: "int ?d * q = p" by (simp only: p_def q_def of_nat_mult)
    have prod: "int32 p = p"
      using nonneg nn bound by (intro int32_id) linarith+
    have a1: "int32 (nnzj + p) = nnzj + p"
      using nonneg nn bound by (intro int32_id) linarith+
    have a2: "int32 (nnzj + p + q) = nnzj + p + q"
      using nonneg nn bound by (intro int32_id) linarith+
    have next_value: "?next = nnzj + p + q"
      by (simp only: sd pq prod a1 a2)
    have "getNumberNonZeroJacobian_loop P sd (i + 1) ?next = Inr (?next + int ?rest)"
      using ib il "1.prems"(1)
    proof (rule "1.IH")
      show "i + 1 \<le> ?N - 1" using True by simp
      show "0 \<le> ?next" using nn nonneg unfolding next_value by linarith
      show "?next + int ?rest < 2 ^ 31" using bound by (simp only: next_value r_def)
      show "sd = int32 (int ?S)" by (rule "1.prems"(5))
    qed
    moreover have "getNumberNonZeroJacobian_loop P sd i nnzj
        = getNumberNonZeroJacobian_loop P sd (i + 1) ?next"
      using ib il by (subst getNumberNonZeroJacobian_loop.simps) simp
    ultimately have "getNumberNonZeroJacobian_loop P sd i nnzj = Inr (?next + int ?rest)"
      by (simp only:)
    then show ?thesis
      by (simp only: next_value sum of_nat_add p_def q_def add.assoc)
  next
    case False
    with "1.prems" have "i = ?N - 1" by simp
    then show ?thesis using b
      by (subst getNumberNonZeroJacobian_loop.simps) simp
  qed
qed

text \<open>
  C4. For a multi-shot problem with \<open>N \<ge> 1\<close> shots whose count fits an \<open>int\<close>,
  \<open>getNumberNonZeroJacobian\<close> returns the count of the base class plus, summed over the
  \<open>N - 1\<close> adjacent pairs of shots, \<open>flatDim\<^sub>i * stateDim + stateDim\<close>, where \<open>flatDim\<^sub>i\<close> is
  the flat dimension of the earlier shot of the pair and \<open>stateDim\<close> is \<open>posDim + velDim\<close> of
  the representation mapping.
\<close>

theorem getNumberNonZeroJacobian_count:
  assumes "mShots P \<noteq> []"
    and "parent_getNumberNonZeroJacobian A
         + (\<Sum>i < length (mShots P) - 1.
              SingleShot_getFlatProblemDim (mShots P ! i) * stateDim P + stateDim P)
         < 2 ^ 31"
  shows "getNumberNonZeroJacobian A P
      = Inr (int (parent_getNumberNonZeroJacobian A
                  + (\<Sum>i < length (mShots P) - 1.
                       SingleShot_getFlatProblemDim (mShots P ! i) * stateDim P + stateDim P)))
    \<and> stateDim P = getPosDim (mRepresentationMapping P) + getVelDim (mRepresentationMapping P)"
proof -
  let ?total = "\<Sum>k = 0..<length (mShots P) - 1.
      SingleShot_getFlatProblemDim (mShots P ! k) * stateDim P + stateDim P"
  have "int (parent_getNumberNonZeroJacobian A + ?total) < int (2 ^ 31)"
    using assms(2) by (simp only: atLeast0LessThan of_nat_less_iff)
  then have bound: "int (parent_getNumberNonZeroJacobian A) + int ?total < 2 ^ 31"
    by simp
  have "getNumberNonZeroJacobian_loop P (int32 (int (stateDim P))) 0
          (int (parent_getNumberNonZeroJacobian A))
      = Inr (int (parent_getNumberNonZeroJacobian A) + int ?total)"
    using assms(1) _ _ bound by (rule getNumberNonZeroJacobian_loop_sum) simp_all
  then have loop: "getNumberNonZeroJacobian_loop P (int32 (int (stateDim P))) 0
          (int (parent_getNumberNonZeroJacobian A))
      = Inr (int (parent_getNumberNonZeroJacobian A
                  + (\<Sum>i < length (mShots P) - 1.
                       SingleShot_getFlatProblemDim (mShots P ! i) * stateDim P + stateDim P)))"
    by (simp only: atLeast0LessThan of_nat_add)
  have eq: "getNumberNonZeroJacobian A P
      = getNumberNonZeroJacobian_loop P (int32 (int (stateDim P))) 0
          (int (parent_getNumberNonZeroJacobian A))"
    by (simp only: getNumberNonZeroJacobian_def stateDim_def of_nat_add)
  have count: "getNumberNonZeroJacobian A P
      = Inr (int (parent_getNumberNonZeroJacobian A
                  + (\<Sum>i < length (mShots P) - 1.
                       SingleShot_getFlatProblemDim (mShots P ! i) * stateDim P + stateDim P)))"
    by (simp only: eq loop)
  have "stateDim P = getPosDim (mRepresentationMapping P) + getVelDim (mRepresentationMapping P)"
    by (simp only: stateDim_def)
  with count show ?thesis by (rule conjI)
qed

theorem getNumberNonZeroJacobian_count_witness:
  "getNumberNonZeroJacobian (no_custom_constraints :: (unit, int) AbstractShot) example_problem
     = Inr 10"
proof -
  have ne: "mShots example_problem \<noteq> []"
    by (simp add: example_problem_def)
  have v: "parent_getNumberNonZeroJacobian (no_custom_constraints :: (unit, int) AbstractShot)
        + (\<Sum>i < length (mShots example_problem) - 1.
             SingleShot_getFlatProblemDim (mShots example_problem ! i) * stateDim example_problem
             + stateDim example_problem) = 10"
    by (simp add: example_problem_def example_shot_def example_mapping_def
        no_custom_constraints_def SingleShot_getFlatProblemDim_def stateDim_def)
  have fits_int: "parent_getNumberNonZeroJacobian (no_custom_constraints :: (unit, int) AbstractShot)
        + (\<Sum>i < length (mShots example_problem) - 1.
             SingleShot_getFlatProblemDim (mShots example_problem ! i) * stateDim example_problem
             + stateDim example_problem) < 2 ^ 31"
    by (simp only: v) simp
  from getNumberNonZeroJacobian_count [OF ne fits_int]
  show ?thesis
    by (simp only: v) simp
qed

text \<open>
  Beyond the range of \<open>int\<close> the count wraps around: with 23171 position and 23171 velocity
  coordinates and two shots without forces, the exact count is 2147627306 and the function
  returns -2147339990.
\<close>

lemma getNumberNonZeroJacobian_wraps:
  "getNumberNonZeroJacobian (no_custom_constraints :: (unit, int) AbstractShot)
     \<lparr>mShots = replicate 2
        \<lparr>SingleShot.mSteps = 0, SingleShot.mTuneStartingState = True,
         mStartPos = [], mStartVel = [], SingleShot.mForces = Zero 0 0,
         SingleShot.mRepresentationMapping
           = \<lparr>getPosDim = 23171, getVelDim = 23171, getForceDim = 0\<rparr>\<rparr>,
      mShotLength = 1, mTuneStartingState = True, mSteps = 0,
      mRepresentationMapping = \<lparr>getPosDim = 23171, getVelDim = 23171, getForceDim = 0\<rparr>\<rparr>
   = Inr (- 2147339990)"
  by (simp add: getNumberNonZeroJacobian_def getNumberNonZeroJacobian_loop.simps
      size_minus_1_def SingleShot_getFlatProblemDim_def no_custom_constraints_def int32_def
      numeral_2_eq_2)

section \<open>Flatten and unflatten\<close>

lemma segment_length: "start + n \<le> length v \<Longrightarrow> length (segment start n v) = n"
  by (simp add: segment_def)

lemma segment_append: "segment c a v @ segment (c + a) b v = segment c (a + b) v"
proof -
  have "drop (c + a) v = drop a (drop c v)" by (simp add: add.commute)
  then show ?thesis by (simp add: segment_def take_add)
qed

lemma concat_segments:
  "concat (map (\<lambda>t. segment (cursor + t * d) d v) [0..<n]) = segment cursor (n * d) v"
proof (induction n)
  case 0
  then show ?case by (simp add: segment_def)
next
  case (Suc n)
  have "concat (map (\<lambda>t. segment (cursor + t * d) d v) [0..<Suc n])
      = segment cursor (n * d) v @ segment (cursor + n * d) d v"
    using Suc by simp
  also have "\<dots> = segment cursor (n * d + d) v" by (rule segment_append)
  finally show ?case by (simp add: add.commute)
qed

lemma SingleShot_unflatten_dim:
  "SingleShot_getFlatProblemDim (SingleShot_unflatten shot flat) = SingleShot_getFlatProblemDim shot"
  by (simp add: SingleShot_unflatten_def SingleShot_getFlatProblemDim_def Let_def)

lemma SingleShot_roundtrip:
  assumes "length flat = SingleShot_getFlatProblemDim shot"
  shows "SingleShot_flatten (SingleShot_unflatten shot flat) = flat"
proof -
  let ?m = "SingleShot.mRepresentationMapping shot"
  let ?n = "SingleShot.mSteps shot"
  let ?fd = "getForceDim ?m"
  show ?thesis
  proof (cases "SingleShot.mTuneStartingState shot")
    case True
    let ?c = "getPosDim ?m + getVelDim ?m"
    from True assms have len: "length flat = ?c + ?fd * ?n"
      by (simp add: SingleShot_getFlatProblemDim_def)
    have "concat (map (\<lambda>t. segment (?c + t * ?fd) ?fd flat) [0..<?n]) = segment ?c (?n * ?fd) flat"
      by (rule concat_segments)
    also have "\<dots> = drop ?c flat"
      using len by (simp add: segment_def mult.commute)
    finally have f: "concat (map (\<lambda>t. segment (?c + t * ?fd) ?fd flat) [0..<?n]) = drop ?c flat" .
    have s: "segment 0 (getPosDim ?m) flat @ segment (0 + getPosDim ?m) (getVelDim ?m) flat
        = segment 0 ?c flat"
      by (rule segment_append)
    have "SingleShot_flatten (SingleShot_unflatten shot flat)
        = (segment 0 (getPosDim ?m) flat @ segment (getPosDim ?m) (getVelDim ?m) flat)
          @ concat (map (\<lambda>t. segment (?c + t * ?fd) ?fd flat) [0..<?n])"
      using True by (simp add: SingleShot_flatten_def SingleShot_unflatten_def Let_def)
    also have "\<dots> = take ?c flat @ drop ?c flat"
      using s f by (simp add: segment_def)
    finally show ?thesis by simp
  next
    case False
    with assms have len: "length flat = ?fd * ?n"
      by (simp add: SingleShot_getFlatProblemDim_def)
    have "concat (map (\<lambda>t. segment (0 + t * ?fd) ?fd flat) [0..<?n]) = segment 0 (?n * ?fd) flat"
      by (rule concat_segments)
    also have "\<dots> = flat"
      using len by (simp add: segment_def mult.commute)
    finally have f: "concat (map (\<lambda>t. segment (0 + t * ?fd) ?fd flat) [0..<?n]) = flat" .
    have "SingleShot_flatten (SingleShot_unflatten shot flat)
        = concat (map (\<lambda>t. segment (0 + t * ?fd) ?fd flat) [0..<?n])"
      using False by (simp add: SingleShot_flatten_def SingleShot_unflatten_def Let_def)
    with f show ?thesis by simp
  qed
qed

lemma getFlatProblemDim_sum:
  "foldl (\<lambda>sum shot. sum + SingleShot_getFlatProblemDim shot) a shots
     = a + sum_list (map SingleShot_getFlatProblemDim shots)"
  by (induction shots arbitrary: a) simp_all

lemma roundtrip_loop:
  assumes "cursor + sum_list (map SingleShot_getFlatProblemDim shots) \<le> length x"
    and "length out = length x"
  shows "\<exists>shots'. unflatten_loop shots cursor x = Inr shots'
           \<and> flatten_loop shots' cursor out
               = Inr (take cursor out
                      @ segment cursor (sum_list (map SingleShot_getFlatProblemDim shots)) x
                      @ drop (cursor + sum_list (map SingleShot_getFlatProblemDim shots)) out)"
  using assms
proof (induction shots arbitrary: cursor out)
  case Nil
  then show ?case by (simp add: segment_def)
next
  case (Cons shot rest)
  let ?d = "SingleShot_getFlatProblemDim shot"
  let ?k = "sum_list (map SingleShot_getFlatProblemDim rest)"
  let ?seg = "segment cursor ?d x"
  let ?shot' = "SingleShot_unflatten shot ?seg"
  let ?out1 = "take cursor out @ ?seg @ drop (cursor + ?d) out"
  from Cons.prems have r: "cursor + ?d + ?k \<le> length x" and d: "cursor + ?d \<le> length x"
    by simp_all
  have lseg: "length ?seg = ?d" using d by (rule segment_length)
  have lout1: "length ?out1 = length x" using Cons.prems(2) d lseg by simp
  from Cons.IH [OF r lout1] obtain rest' where
    u: "unflatten_loop rest (cursor + ?d) x = Inr rest'" and
    f: "flatten_loop rest' (cursor + ?d) ?out1
         = Inr (take (cursor + ?d) ?out1 @ segment (cursor + ?d) ?k x
                @ drop (cursor + ?d + ?k) ?out1)"
    by blast
  have t: "take (cursor + ?d) ?out1 = take cursor out @ ?seg"
    using Cons.prems(2) d lseg by simp
  have dr: "drop (cursor + ?d + ?k) ?out1 = drop (cursor + ?d + ?k) out"
    using Cons.prems(2) d lseg by (simp add: ac_simps)
  have j: "?seg @ segment (cursor + ?d) ?k x = segment cursor (?d + ?k) x"
    by (rule segment_append)
  have a: "assign_segment cursor ?d (SingleShot_flatten ?shot') out = Inr ?out1"
    using d Cons.prems(2) lseg SingleShot_roundtrip [of ?seg shot]
    by (simp add: assign_segment_def)
  have un: "unflatten_loop (shot # rest) cursor x = Inr (?shot' # rest')"
    using d u by simp
  have "flatten_loop (?shot' # rest') cursor out = flatten_loop rest' (cursor + ?d) ?out1"
    using a by (simp add: SingleShot_unflatten_dim)
  also have "\<dots> = Inr ((take cursor out @ ?seg) @ segment (cursor + ?d) ?k x
                @ drop (cursor + ?d + ?k) out)"
    by (simp only: f t dr)
  also have "\<dots> = Inr (take cursor out @ segment cursor (?d + ?k) x
                @ drop (cursor + (?d + ?k)) out)"
    by (simp only: append_assoc j [symmetric] add.assoc)
  finally have fl: "flatten_loop (?shot' # rest') cursor out
      = Inr (take cursor out @ segment cursor (?d + ?k) x @ drop (cursor + (?d + ?k)) out)" .
  have "sum_list (map SingleShot_getFlatProblemDim (shot # rest)) = ?d + ?k" by simp
  with un fl show ?case by metis
qed

text \<open>
  C1. For every multi-shot problem and every flat vector \<open>x\<close> whose length is the
  problem's flat dimension, \<open>unflatten x\<close> succeeds and \<open>flatten\<close> of the resulting problem
  into any output vector of the same length gives back exactly \<open>x\<close>.
\<close>

theorem flatten_unflatten_roundtrip:
  assumes "length x = getFlatProblemDim P" and "length out = length x"
  shows "\<exists>P'. unflatten P x = Inr P' \<and> flatten P' out = Inr x"
proof -
  have n: "sum_list (map SingleShot_getFlatProblemDim (mShots P)) = length x"
    using assms(1) by (simp add: getFlatProblemDim_def getFlatProblemDim_sum)
  then have "0 + sum_list (map SingleShot_getFlatProblemDim (mShots P)) \<le> length x" by simp
  from roundtrip_loop [OF this assms(2)] obtain shots' where
    "unflatten_loop (mShots P) 0 x = Inr shots'" and
    "flatten_loop shots' 0 out = Inr x"
    using n assms(2) by (auto simp: segment_def)
  then show ?thesis
    by (simp add: unflatten_def flatten_def)
qed

theorem flatten_unflatten_roundtrip_witness:
  "\<exists>P'. unflatten example_problem [1, 2, 3, 4, 5, 6, 7] = Inr P'
         \<and> flatten P' [0, 0, 0, 0, 0, 0, 0] = Inr [1, 2, 3, 4, 5, 6, 7]"
proof -
  have x: "length [1, 2, 3, 4, 5, 6, 7 :: int] = getFlatProblemDim example_problem"
    by (simp add: getFlatProblemDim_def example_problem_def example_shot_def
        example_mapping_def SingleShot_getFlatProblemDim_def)
  have out: "length [0, 0, 0, 0, 0, 0, 0 :: int] = length [1, 2, 3, 4, 5, 6, 7 :: int]"
    by simp
  from flatten_unflatten_roundtrip [OF x out] show ?thesis .
qed

section \<open>Knot-point constraints and their bounds\<close>

lemma segment_take: "start + n \<le> m \<Longrightarrow> segment start n (take m v) = segment start n v"
  by (simp add: segment_def drop_take min_def)

lemma assign_segment_Inr:
  assumes "start + n \<le> length v" and "length rhs = n"
  shows "assign_segment start n rhs v = Inr (take start v @ rhs @ drop (start + n) v)"
  using assms by (simp add: assign_segment_def)

lemma take_take_le: "a \<le> b \<Longrightarrow> take a (take b v) = take a v"
  by (simp add: min_def)

lemma written_length:
  "start + length rhs \<le> length v \<Longrightarrow>
   length (take start v @ rhs @ drop (start + length rhs) v) = length v"
  by simp

lemma written_take:
  "start \<le> length v \<Longrightarrow> take start (take start v @ rhs @ rest) = take start v"
  by simp

lemma written_segment:
  "start \<le> length v \<Longrightarrow> segment start (length rhs) (take start v @ rhs @ rest) = rhs"
  by (simp add: segment_def)

lemma computeConstraints_loop_correct:
  fixes P :: "('a::minus) MultiShot"
  assumes "i = Suc j" and "i \<le> length (mShots P)"
    and "cursor = np + j * stateDim P"
    and "length c = np + (length (mShots P) - 1) * stateDim P"
    and "\<forall>shot \<in> set (mShots P). length (getFinalState X world shot) = stateDim P"
    and "\<forall>shot \<in> set (mShots P). length (SingleShot_getStartState shot) = stateDim P"
  shows "\<exists>c'. computeConstraints_loop X world P i cursor c = Inr c'
           \<and> length c' = length c \<and> take cursor c' = take cursor c
           \<and> (\<forall>k. j \<le> k \<and> Suc k < length (mShots P) \<longrightarrow>
                 segment (np + k * stateDim P) (stateDim P) c'
                   = map2 (-) (getFinalState X world (mShots P ! k))
                       (SingleShot_getStartState (mShots P ! Suc k)))"
  using assms
proof (induction X world P i cursor c arbitrary: j rule: computeConstraints_loop.induct)
  case (1 X world P i cursor c)
  let ?N = "length (mShots P)"
  let ?sd = "stateDim P"
  show ?case
  proof (cases "i < ?N")
    case False
    with "1.prems" have "i = ?N" by simp
    with "1.prems"(1) have "\<forall>k. \<not> (j \<le> k \<and> Suc k < ?N)" by auto
    moreover have "computeConstraints_loop X world P i cursor c = Inr c"
      using False by (subst computeConstraints_loop.simps) simp
    ultimately show ?thesis by blast
  next
    case True
    let ?a = "getFinalState X world (mShots P ! j)"
    let ?b = "SingleShot_getStartState (mShots P ! i)"
    let ?defect = "map2 (-) ?a ?b"
    let ?c1 = "take cursor c @ ?defect @ drop (cursor + ?sd) c"
    have j: "j < ?N" using True "1.prems"(1) by simp
    have la: "length ?a = ?sd" using "1.prems"(5) j by simp
    have lb: "length ?b = ?sd" using "1.prems"(6) True by simp
    have ld: "length ?defect = ?sd" using la lb by simp
    have vm: "vec_minus ?a ?b = Inr ?defect"
      using la lb by (simp add: vec_minus_def)
    have "Suc j * ?sd \<le> (?N - 1) * ?sd"
      using True "1.prems"(1) by (intro mult_le_mono1) simp
    then have rng: "cursor + ?sd \<le> length c"
      using "1.prems"(3,4) by simp
    then have cl: "cursor \<le> length c" by simp
    have as: "assign_segment cursor ?sd ?defect c = Inr ?c1"
      using rng ld by (rule assign_segment_Inr)
    have lc1: "length ?c1 = length c" using rng ld by simp
    have step: "computeConstraints_loop X world P i cursor c
        = computeConstraints_loop X world P (i + 1) (cursor + ?sd) ?c1"
      using True vm as "1.prems"(1)
      by (subst computeConstraints_loop.simps) (simp add: stateDim_def)
    have vm': "vec_minus (getFinalState X world (mShots P ! (i - 1))) ?b = Inr ?defect"
      using vm "1.prems"(1) by simp
    have as': "assign_segment cursor
          (getPosDim (mRepresentationMapping P) + getVelDim (mRepresentationMapping P))
          ?defect c = Inr ?c1"
      using as by (simp add: stateDim_def)
    have "\<exists>c'. computeConstraints_loop X world P (i + 1)
               (cursor + (getPosDim (mRepresentationMapping P)
                          + getVelDim (mRepresentationMapping P))) ?c1 = Inr c'
           \<and> length c' = length ?c1
           \<and> take (cursor + (getPosDim (mRepresentationMapping P)
                          + getVelDim (mRepresentationMapping P))) c'
               = take (cursor + (getPosDim (mRepresentationMapping P)
                          + getVelDim (mRepresentationMapping P))) ?c1
           \<and> (\<forall>k. Suc j \<le> k \<and> Suc k < ?N \<longrightarrow>
                 segment (np + k * ?sd) ?sd c'
                   = map2 (-) (getFinalState X world (mShots P ! k))
                       (SingleShot_getStartState (mShots P ! Suc k)))"
    proof (rule "1.IH" [OF True vm' as'])
      show "i + 1 = Suc (Suc j)" using "1.prems"(1) by simp
      show "i + 1 \<le> ?N" using True by simp
      show "cursor + (getPosDim (mRepresentationMapping P)
                          + getVelDim (mRepresentationMapping P)) = np + Suc j * ?sd"
        using "1.prems"(3) by (simp add: stateDim_def)
      show "length ?c1 = np + (?N - 1) * ?sd" using lc1 "1.prems"(4) by simp
      show "\<forall>shot \<in> set (mShots P). length (getFinalState X world shot) = ?sd"
        by (rule "1.prems"(5))
      show "\<forall>shot \<in> set (mShots P). length (SingleShot_getStartState shot) = ?sd"
        by (rule "1.prems"(6))
    qed
    then obtain c' where
      r: "computeConstraints_loop X world P (i + 1) (cursor + ?sd) ?c1 = Inr c'" and
      l: "length c' = length ?c1" and
      t: "take (cursor + ?sd) c' = take (cursor + ?sd) ?c1" and
      k: "\<forall>k. Suc j \<le> k \<and> Suc k < ?N \<longrightarrow>
                 segment (np + k * ?sd) ?sd c'
                   = map2 (-) (getFinalState X world (mShots P ! k))
                       (SingleShot_getStartState (mShots P ! Suc k))"
      unfolding stateDim_def by blast
    have "take cursor c' = take cursor (take (cursor + ?sd) c')"
      by (rule take_take_le [symmetric]) simp
    also have "\<dots> = take cursor (take (cursor + ?sd) ?c1)" by (simp only: t)
    also have "\<dots> = take cursor ?c1" by (rule take_take_le) simp
    also have "\<dots> = take cursor c" by (rule written_take [OF cl])
    finally have tk: "take cursor c' = take cursor c" .
    have "segment cursor ?sd c' = segment cursor ?sd (take (cursor + ?sd) c')"
      by (rule segment_take [symmetric]) simp
    also have "\<dots> = segment cursor ?sd (take (cursor + ?sd) ?c1)" by (simp only: t)
    also have "\<dots> = segment cursor ?sd ?c1" by (rule segment_take) simp
    also have "\<dots> = segment cursor (length ?defect) ?c1" by (simp only: ld)
    also have "\<dots> = ?defect" by (rule written_segment [OF cl])
    finally have sj: "segment (np + j * ?sd) ?sd c' = ?defect"
      using "1.prems"(3) by simp
    have all: "\<forall>k. j \<le> k \<and> Suc k < ?N \<longrightarrow>
                 segment (np + k * ?sd) ?sd c'
                   = map2 (-) (getFinalState X world (mShots P ! k))
                       (SingleShot_getStartState (mShots P ! Suc k))"
    proof (intro allI impI)
      fix k assume h: "j \<le> k \<and> Suc k < ?N"
      show "segment (np + k * ?sd) ?sd c'
                   = map2 (-) (getFinalState X world (mShots P ! k))
                       (SingleShot_getStartState (mShots P ! Suc k))"
      proof (cases "k = j")
        case True
        with sj "1.prems"(1) show ?thesis by simp
      next
        case False
        with h have "Suc j \<le> k \<and> Suc k < ?N" by simp
        with k show ?thesis by blast
      qed
    qed
    have "computeConstraints_loop X world P i cursor c = Inr c'"
      using step r by simp
    moreover have "length c' = length c"
      using l lc1 by simp
    ultimately show ?thesis
      using tk all by blast
  qed
qed


lemma zero_bounds:
  fixes f :: "('a::zero) list \<Rightarrow> 'a list"
  assumes "np \<le> n" and "length (f (segment 0 np (VectorZero n))) = np"
  shows "\<exists>u. assign_segment 0 np (f (segment 0 np (VectorZero n))) (VectorZero n) = Inr u
           \<and> length u = n \<and> (\<forall>k. np \<le> k \<and> k < n \<longrightarrow> u ! k = 0)"
proof -
  let ?rhs = "f (segment 0 np (VectorZero n))"
  let ?u = "?rhs @ drop np (VectorZero n)"
  have a: "assign_segment 0 np ?rhs (VectorZero n) = Inr ?u"
    using assms by (simp add: assign_segment_def VectorZero_def)
  have l: "length ?u = n" using assms by (simp add: VectorZero_def)
  have "\<forall>k. np \<le> k \<and> k < n \<longrightarrow> ?u ! k = 0"
    using assms by (auto simp: nth_append VectorZero_def)
  with a l show ?thesis by blast
qed

text \<open>
  C2. For a multi-shot problem with \<open>N \<ge> 1\<close> shots whose final and start states have
  \<open>posDim + velDim\<close> entries, \<open>computeConstraints\<close> leaves the entries of the base class in
  front and writes after them, for each adjacent pair of shots \<open>(i, i + 1)\<close> in order, the
  \<open>(posDim + velDim)\<close>-vector \<open>finalState(shot i) - startState(shot (i + 1))\<close>; and
  \<open>getConstraintUpperBounds\<close> and \<open>getConstraintLowerBounds\<close> set every entry after those of
  the base class to zero.
\<close>

theorem knot_defects_and_zero_bounds:
  fixes P :: "('a::{minus,zero}) MultiShot"
  assumes "mShots P \<noteq> []"
    and "length constraints = getConstraintDim A P"
    and "length flat = getConstraintDim A P"
    and "length (parent_computeConstraints A world
                   (segment 0 (parent_getConstraintDim A) constraints))
           = parent_getConstraintDim A"
    and "length (parent_getConstraintUpperBounds A
                   (segment 0 (parent_getConstraintDim A) (VectorZero (length flat))))
           = parent_getConstraintDim A"
    and "length (parent_getConstraintLowerBounds A
                   (segment 0 (parent_getConstraintDim A) (VectorZero (length flat))))
           = parent_getConstraintDim A"
    and "\<forall>shot \<in> set (mShots P). length (getFinalState X world shot) = stateDim P"
    and "\<forall>shot \<in> set (mShots P). length (SingleShot_getStartState shot) = stateDim P"
  shows "\<exists>c u l.
           computeConstraints A X world P constraints = Inr c
         \<and> getConstraintUpperBounds A P flat = Inr u
         \<and> getConstraintLowerBounds A P flat = Inr l
         \<and> length c = getConstraintDim A P
         \<and> segment 0 (parent_getConstraintDim A) c
             = parent_computeConstraints A world
                 (segment 0 (parent_getConstraintDim A) constraints)
         \<and> (\<forall>i. Suc i < length (mShots P) \<longrightarrow>
               segment (parent_getConstraintDim A + i * stateDim P) (stateDim P) c
                 = map2 (-) (getFinalState X world (mShots P ! i))
                     (SingleShot_getStartState (mShots P ! Suc i)))
         \<and> length u = length flat \<and> length l = length flat
         \<and> (\<forall>k. parent_getConstraintDim A \<le> k \<and> k < length flat \<longrightarrow> u ! k = 0 \<and> l ! k = 0)"
proof -
  let ?np = "parent_getConstraintDim A"
  let ?N = "length (mShots P)"
  let ?rhs = "parent_computeConstraints A world (segment 0 ?np constraints)"
  let ?c0 = "take 0 constraints @ ?rhs @ drop (0 + ?np) constraints"
  have dim: "getConstraintDim A P = ?np + (?N - 1) * stateDim P"
    using assms(1) by (simp add: getConstraintDim_def size_minus_1_def stateDim_def)
  have np: "0 + ?np \<le> length constraints" using assms(2) dim by simp
  have a0: "assign_segment 0 ?np ?rhs constraints = Inr ?c0"
    using np assms(4) by (rule assign_segment_Inr)
  have lc0: "length ?c0 = ?np + (?N - 1) * stateDim P"
    using assms(2,4) dim by simp
  have one: "1 \<le> ?N" using assms(1) by (simp add: Suc_le_eq)
  from computeConstraints_loop_correct [of 1 0 P ?np ?np ?c0 X world, OF _ one _ lc0 assms(7,8)]
  obtain c where
    r: "computeConstraints_loop X world P 1 ?np ?c0 = Inr c" and
    l: "length c = length ?c0" and
    t: "take ?np c = take ?np ?c0" and
    k: "\<forall>k. 0 \<le> k \<and> Suc k < ?N \<longrightarrow>
           segment (?np + k * stateDim P) (stateDim P) c
             = map2 (-) (getFinalState X world (mShots P ! k))
                 (SingleShot_getStartState (mShots P ! Suc k))"
    by auto
  have cc: "computeConstraints A X world P constraints = Inr c"
    using a0 r by (simp add: computeConstraints_def Let_def)
  have lc: "length c = getConstraintDim A P" using l lc0 dim by simp
  have par: "segment 0 ?np c = ?rhs"
    using t assms(4) by (simp add: segment_def)
  have le: "?np \<le> length flat" using assms(3) dim by simp
  from zero_bounds [of ?np "length flat" "parent_getConstraintUpperBounds A", OF le assms(5)]
  obtain u where
    u: "getConstraintUpperBounds A P flat = Inr u" "length u = length flat"
       "\<forall>k. ?np \<le> k \<and> k < length flat \<longrightarrow> u ! k = 0"
    by (auto simp: getConstraintUpperBounds_def Let_def)
  from zero_bounds [of ?np "length flat" "parent_getConstraintLowerBounds A", OF le assms(6)]
  obtain l where
    l: "getConstraintLowerBounds A P flat = Inr l" "length l = length flat"
       "\<forall>k. ?np \<le> k \<and> k < length flat \<longrightarrow> l ! k = 0"
    by (auto simp: getConstraintLowerBounds_def Let_def)
  show ?thesis
    using cc lc par k u l by simp
qed

theorem knot_defects_and_zero_bounds_witness:
  "computeConstraints (no_custom_constraints :: (unit, int) AbstractShot) example_methods ()
      example_problem [9, 9] = Inr [2, 7]
   \<and> getConstraintUpperBounds (no_custom_constraints :: (unit, int) AbstractShot)
      example_problem [9, 9] = Inr [0, 0]
   \<and> getConstraintLowerBounds (no_custom_constraints :: (unit, int) AbstractShot)
      example_problem [9, 9] = Inr [0, 0]"
proof -
  let ?A = "no_custom_constraints :: (unit, int) AbstractShot"
  have np: "parent_getConstraintDim ?A = 0" by (simp add: no_custom_constraints_def)
  have sd: "stateDim example_problem = 2"
    by (simp add: stateDim_def example_problem_def example_mapping_def)
  have shots: "mShots example_problem = [example_shot 2 True, example_shot 1 True]"
    by (simp add: example_problem_def)
  have dim: "getConstraintDim ?A example_problem = 2"
    by (simp add: getConstraintDim_def size_minus_1_def no_custom_constraints_def
        example_problem_def example_mapping_def)
  have h1: "mShots example_problem \<noteq> []" by (simp add: shots)
  have h2: "length [9, 9 :: int] = getConstraintDim ?A example_problem" by (simp add: dim)
  have h4: "length (parent_computeConstraints ?A ()
                   (segment 0 (parent_getConstraintDim ?A) [9, 9]))
           = parent_getConstraintDim ?A"
    by (simp add: no_custom_constraints_def segment_def)
  have h5: "length (parent_getConstraintUpperBounds ?A
                   (segment 0 (parent_getConstraintDim ?A) (VectorZero (length [9, 9 :: int]))))
           = parent_getConstraintDim ?A"
    by (simp add: no_custom_constraints_def segment_def)
  have h6: "length (parent_getConstraintLowerBounds ?A
                   (segment 0 (parent_getConstraintDim ?A) (VectorZero (length [9, 9 :: int]))))
           = parent_getConstraintDim ?A"
    by (simp add: no_custom_constraints_def segment_def)
  have h7: "\<forall>shot \<in> set (mShots example_problem).
      length (getFinalState example_methods () shot) = stateDim example_problem"
    by (simp add: shots sd example_methods_def)
  have h8: "\<forall>shot \<in> set (mShots example_problem).
      length (SingleShot_getStartState shot) = stateDim example_problem"
    by (simp add: shots sd SingleShot_getStartState_def example_shot_def)
  from knot_defects_and_zero_bounds [OF h1 h2 h2 h4 h5 h6 h7 h8]
  obtain c u l where
    c: "computeConstraints ?A example_methods () example_problem [9, 9] = Inr c"
      "length c = 2"
      "segment 0 2 c = map2 (-) (getFinalState example_methods () (example_shot 2 True))
                     (SingleShot_getStartState (example_shot 1 True))"
    and u: "getConstraintUpperBounds ?A example_problem [9, 9] = Inr u" "length u = 2"
      "u ! 0 = 0" "u ! 1 = 0"
    and l: "getConstraintLowerBounds ?A example_problem [9, 9] = Inr l" "length l = 2"
      "l ! 0 = 0" "l ! 1 = 0"
    by (auto simp: np sd dim shots)
  from c(2,3) have "c = [2, 7]"
    by (simp add: segment_def example_methods_def SingleShot_getStartState_def example_shot_def)
  moreover from u(2-4) have "u = [0, 0]"
    by (metis (no_types, lifting) One_nat_def length_0_conv length_Suc_conv nth_Cons_0 nth_Cons_Suc numeral_2_eq_2)
  moreover from l(2-4) have "l = [0, 0]"
    by (metis (no_types, lifting) One_nat_def length_0_conv length_Suc_conv nth_Cons_0 nth_Cons_Suc numeral_2_eq_2)
  ultimately show ?thesis using c(1) u(1) l(1) by simp
qed

section \<open>Sparse and dense Jacobian\<close>

text \<open>
  C3. The claim is that scattering the values of \<open>getSparseJacobian\<close> at the index pairs
  of \<open>getJacobianSparsityStructure\<close> into a zero matrix gives the matrix of
  \<open>backpropJacobian\<close>, for every multi-shot problem. On the example problem (two shots,
  flat dimension 7, state dimension 2) with one custom constraint in the base class, the
  code computes the dense Jacobian, index pairs, values and scattered matrix below, and the
  comparison of \<open>verifySparseJacobian\<close> fails: the indices of the knot points are written
  from position 0 (over those of the base class), the values from position 7, and the
  values of the base class are never written.
\<close>

theorem sparse_jacobian_differs_with_custom_constraint:
  "backpropJacobian (one_custom_constraint :: (unit, int) AbstractShot) example_methods ()
       example_problem (Zero 3 7)
     = Inr \<lparr>nrows = 3,
            columns = [[1, 1, 2], [2, 3, 4], [3, 5, 6], [4, 7, 8],
                       [5, - 1, 0], [6, 0, - 1], [7, 0, 0]]\<rparr>
   \<and> getNumberNonZeroJacobian (one_custom_constraint :: (unit, int) AbstractShot)
       example_problem = Inr 17
   \<and> getJacobianSparsityStructure (one_custom_constraint :: (unit, int) AbstractShot)
       example_problem (VectorZero 17) (VectorZero 17)
     = Inr ([1, 2, 1, 2, 1, 2, 1, 2, 1, 2, 0, 0, 0, 0, 0, 0, 0],
            [0, 0, 1, 1, 2, 2, 3, 3, 4, 5, 0, 0, 0, 0, 0, 0, 0])
   \<and> getSparseJacobian (one_custom_constraint :: (unit, int) AbstractShot) example_methods ()
       example_problem (VectorZero 17)
     = Inr [0, 0, 0, 0, 0, 0, 0, 1, 2, 3, 4, 5, 6, 7, 8, - 1, - 1]
   \<and> scatter_loop 0 17
       [1, 2, 1, 2, 1, 2, 1, 2, 1, 2, 0, 0, 0, 0, 0, 0, 0]
       [0, 0, 1, 1, 2, 2, 3, 3, 4, 5, 0, 0, 0, 0, 0, 0, 0]
       [0, 0, 0, 0, 0, 0, 0, 1, 2, 3, 4, 5, 6, 7, 8, - 1, - 1 :: int] (Zero 3 7)
     = Inr \<lparr>nrows = 3,
            columns = [[- 1, 0, 0], [0, 0, 0], [0, 0, 0], [0, 0, 1],
                       [0, 2, 0], [0, 0, 3], [0, 0, 0]]\<rparr>
   \<and> verifySparseJacobian (one_custom_constraint :: (unit, int) AbstractShot)
       example_methods () example_problem = Inr False"
proof (intro conjI)
  show "backpropJacobian (one_custom_constraint :: (unit, int) AbstractShot) example_methods ()
       example_problem (Zero 3 7)
     = Inr \<lparr>nrows = 3,
            columns = [[1, 1, 2], [2, 3, 4], [3, 5, 6], [4, 7, 8],
                       [5, - 1, 0], [6, 0, - 1], [7, 0, 0]]\<rparr>"
    by code_simp
  show "getNumberNonZeroJacobian (one_custom_constraint :: (unit, int) AbstractShot)
       example_problem = Inr 17"
    by code_simp
  show "getJacobianSparsityStructure (one_custom_constraint :: (unit, int) AbstractShot)
       example_problem (VectorZero 17) (VectorZero 17)
     = Inr ([1, 2, 1, 2, 1, 2, 1, 2, 1, 2, 0, 0, 0, 0, 0, 0, 0],
            [0, 0, 1, 1, 2, 2, 3, 3, 4, 5, 0, 0, 0, 0, 0, 0, 0])"
    by code_simp
  show "getSparseJacobian (one_custom_constraint :: (unit, int) AbstractShot) example_methods ()
       example_problem (VectorZero 17)
     = Inr [0, 0, 0, 0, 0, 0, 0, 1, 2, 3, 4, 5, 6, 7, 8, - 1, - 1]"
    by code_simp
  show "scatter_loop 0 17
       [1, 2, 1, 2, 1, 2, 1, 2, 1, 2, 0, 0, 0, 0, 0, 0, 0]
       [0, 0, 1, 1, 2, 2, 3, 3, 4, 5, 0, 0, 0, 0, 0, 0, 0]
       [0, 0, 0, 0, 0, 0, 0, 1, 2, 3, 4, 5, 6, 7, 8, - 1, - 1 :: int] (Zero 3 7)
     = Inr \<lparr>nrows = 3,
            columns = [[- 1, 0, 0], [0, 0, 0], [0, 0, 0], [0, 0, 1],
                       [0, 2, 0], [0, 0, 3], [0, 0, 0]]\<rparr>"
    by code_simp
  show "verifySparseJacobian (one_custom_constraint :: (unit, int) AbstractShot)
       example_methods () example_problem = Inr False"
    by code_simp
qed

text \<open>
  Without a custom constraint the same comparison succeeds on the example problem, and on
  a problem of three shots: the order in which \<open>getSparseJacobian\<close> emits values is the
  order in which \<open>getJacobianSparsityStructure\<close> emits index pairs.
\<close>

lemma sparse_jacobian_agrees_without_custom_constraint:
  "verifySparseJacobian (no_custom_constraints :: (unit, int) AbstractShot)
       example_methods () example_problem = Inr True
   \<and> verifySparseJacobian (no_custom_constraints :: (unit, int) AbstractShot)
       example_methods ()
       (example_problem\<lparr>mShots := [example_shot 2 False, example_shot 2 True,
                                      example_shot 1 True]\<rparr>) = Inr True"
  by (rule conjI; code_simp)

section \<open>The sparse Jacobian without custom constraints\<close>

text \<open>
  With no custom constraint the two cursors of the sparsity structure and of the sparse
  values both start at 0, and the scatter of the sparse values reconstructs the dense
  Jacobian for every problem whose count of non-zero entries fits an \<open>int\<close>. The proof follows the three loops: each of them emits the
  entries of \<open>knot_triples\<close> in the same order, and writing these entries one by one into a
  zero matrix gives the blocks that \<open>backpropJacobian\<close> writes.
\<close>

lemma write_list_Nil: "write_list c [] xs = xs"
  by (simp add: write_list_def)

lemma write_list_length:
  "c + length vs \<le> length xs \<Longrightarrow> length (write_list c vs xs) = length xs"
  by (simp add: write_list_def)

lemma write_list_Cons:
  assumes "c < length xs"
  shows "write_list (Suc c) vs (xs[c := v]) = write_list c (v # vs) xs"
proof -
  have "take (Suc c) (xs[c := v]) = take c xs @ [v]"
    using assms by (simp add: take_Suc_conv_app_nth)
  moreover have "drop (Suc c + length vs) (xs[c := v]) = drop (c + Suc (length vs)) xs"
    by simp
  ultimately show ?thesis by (simp add: write_list_def)
qed

lemma write_list_append:
  assumes "c + length a + length b \<le> length xs"
  shows "write_list (c + length a) b (write_list c a xs) = write_list c (a @ b) xs"
proof -
  let ?mid = "take c xs @ a @ drop (c + length a) xs"
  have l: "c + length a \<le> length xs" using assms by simp
  have lt: "length (take c xs @ a) = c + length a" using l by simp
  have "take (c + length a) ?mid
      = take (length (take c xs @ a)) ((take c xs @ a) @ drop (c + length a) xs)"
    by (simp only: lt append_assoc)
  also have "\<dots> = take c xs @ a" by (simp only: append_eq_conv_conj [THEN iffD1, THEN conjunct1, symmetric, OF refl])
  finally have t: "take (c + length a) ?mid = take c xs @ a" .
  have "drop (c + length a + length b) ?mid
      = drop (length (take c xs @ a) + length b) ((take c xs @ a) @ drop (c + length a) xs)"
    by (simp only: lt append_assoc)
  also have "\<dots> = drop (length b) (drop (c + length a) xs)"
    by (simp only: drop_append) simp
  also have "\<dots> = drop (c + length (a @ b)) xs"
    by (simp add: ac_simps)
  finally have d: "drop (c + length a + length b) ?mid = drop (c + length (a @ b)) xs" .
  have "write_list (c + length a) b (write_list c a xs)
      = take (c + length a) ?mid @ b @ drop (c + length a + length b) ?mid"
    unfolding write_list_def by (rule refl)
  also have "\<dots> = (take c xs @ a) @ b @ drop (c + length (a @ b)) xs"
    by (simp only: t d)
  also have "\<dots> = write_list c (a @ b) xs"
    unfolding write_list_def by (simp only: append_assoc)
  finally show ?thesis .
qed

lemma write_list_append':
  "length a = n \<Longrightarrow> c + n + length b \<le> length xs \<Longrightarrow>
   write_list (c + n) b (write_list c a xs) = write_list c (a @ b) xs"
  using write_list_append [of c a b xs] by simp

lemma write_list_append2:
  "length a = n + m \<Longrightarrow> c + n + m + length b \<le> length xs \<Longrightarrow>
   write_list (c + n + m) b (write_list c a xs) = write_list c (a @ b) xs"
  using write_list_append [of c a b xs] by (simp add: add.assoc)

lemma write_list_all: "length vs = length xs \<Longrightarrow> write_list 0 vs xs = vs"
  by (simp add: write_list_def)

lemma assign_segment_write:
  "c + n \<le> length xs \<Longrightarrow> length v = n \<Longrightarrow> assign_segment c n v xs = Inr (write_list c v xs)"
  by (simp add: assign_segment_def write_list_def)

lemma assign_coeff_update:
  "k < length xs \<Longrightarrow> assign_coeff k x xs = Inr (xs[k := x])"
  by (simp add: assign_coeff_def)

text \<open>structure loops\<close>

lemma sparsity_rows_loop:
  assumes "row \<le> rowEnd" and "sc + (rowEnd - row) \<le> length rows"
    and "length cols = length rows"
  shows "getJacobianSparsityStructure_rows row rowEnd col rows cols sc
     = Inr (write_list sc [row..<rowEnd] rows,
            write_list sc (replicate (rowEnd - row) col) cols,
            sc + (rowEnd - row))"
  using assms
proof (induction row rowEnd col rows cols sc rule: getJacobianSparsityStructure_rows.induct)
  case (1 row rowEnd col rows cols sc)
  show ?case
  proof (cases "row < rowEnd")
    case False
    with "1.prems" have "row = rowEnd" by simp
    then show ?thesis
      by (subst getJacobianSparsityStructure_rows.simps) (simp add: write_list_Nil)
  next
    case True
    have sr: "sc < length rows" and scl: "sc < length cols"
      using True "1.prems" by simp_all
    have ar: "assign_coeff sc row rows = Inr (rows[sc := row])"
      using sr by (rule assign_coeff_update)
    have ac: "assign_coeff sc col cols = Inr (cols[sc := col])"
      using scl by (rule assign_coeff_update)
    have IH: "getJacobianSparsityStructure_rows (row + 1) rowEnd col (rows[sc := row])
                (cols[sc := col]) (sc + 1)
        = Inr (write_list (sc + 1) [row + 1..<rowEnd] (rows[sc := row]),
               write_list (sc + 1) (replicate (rowEnd - (row + 1)) col) (cols[sc := col]),
               sc + 1 + (rowEnd - (row + 1)))"
      using True "1.prems" by (intro "1.IH" [OF True ar ac]) simp_all
    have u: "[row..<rowEnd] = row # [row + 1..<rowEnd]"
      using True by (simp add: upt_conv_Cons)
    have r: "replicate (rowEnd - row) col = col # replicate (rowEnd - (row + 1)) col"
      using True by (simp add: Suc_diff_Suc replicate_Suc [symmetric] del: replicate_Suc)
    have w1: "write_list (sc + 1) [row + 1..<rowEnd] (rows[sc := row])
        = write_list sc [row..<rowEnd] rows"
      using write_list_Cons [OF sr] by (simp only: u Suc_eq_plus1)
    have w2: "write_list (sc + 1) (replicate (rowEnd - (row + 1)) col) (cols[sc := col])
        = write_list sc (replicate (rowEnd - row) col) cols"
      using write_list_Cons [OF scl] by (simp only: r Suc_eq_plus1)
    have c: "sc + 1 + (rowEnd - (row + 1)) = sc + (rowEnd - row)" using True by simp
    have "getJacobianSparsityStructure_rows row rowEnd col rows cols sc
        = getJacobianSparsityStructure_rows (row + 1) rowEnd col (rows[sc := row])
                (cols[sc := col]) (sc + 1)"
      using True ar ac by (subst getJacobianSparsityStructure_rows.simps) simp
    then show ?thesis
      by (simp only: IH w1 w2 c)
  qed
qed

lemma sparsity_cols_loop:
  assumes "col \<le> colEnd" and "sc + (colEnd - col) * sd \<le> length rows"
    and "length cols = length rows"
  shows "getJacobianSparsityStructure_cols col colEnd rc sd rows cols sc
     = Inr (write_list sc (concat (map (\<lambda>c. [rc..<rc + sd]) [col..<colEnd])) rows,
            write_list sc (concat (map (\<lambda>c. replicate sd c) [col..<colEnd])) cols,
            sc + (colEnd - col) * sd)"
  using assms
proof (induction col colEnd rc sd rows cols sc rule: getJacobianSparsityStructure_cols.induct)
  case (1 col colEnd rc sd rows cols sc)
  show ?case
  proof (cases "col < colEnd")
    case False
    with "1.prems" have "col = colEnd" by simp
    then show ?thesis
      by (subst getJacobianSparsityStructure_cols.simps) (simp add: write_list_Nil)
  next
    case True
    let ?R = "write_list sc [rc..<rc + sd] rows"
    let ?C = "write_list sc (replicate sd col) cols"
    let ?restR = "concat (map (\<lambda>c. [rc..<rc + sd]) [col + 1..<colEnd])"
    let ?restC = "concat (map (\<lambda>c. replicate sd c) [col + 1..<colEnd])"
    have k: "colEnd - col = Suc (colEnd - (col + 1))" using True by simp
    have room: "sc + sd + (colEnd - (col + 1)) * sd \<le> length rows"
      using "1.prems"(2) by (simp add: k)
    then have room1: "sc + (rc + sd - rc) \<le> length rows" by simp
    have rl: "getJacobianSparsityStructure_rows rc (rc + sd) col rows cols sc
        = Inr (?R, ?C, sc + sd)"
      using sparsity_rows_loop [of rc "rc + sd" sc rows cols col] room1 "1.prems"(3) by simp
    have lR: "length ?R = length rows"
      using room by (intro write_list_length) simp
    have lC: "length ?C = length rows"
      using room "1.prems"(3) by (simp add: write_list_length)
    have IH: "getJacobianSparsityStructure_cols (col + 1) colEnd rc sd ?R ?C (sc + sd)
        = Inr (write_list (sc + sd) ?restR ?R, write_list (sc + sd) ?restC ?C,
               sc + sd + (colEnd - (col + 1)) * sd)"
    proof (rule "1.IH" [OF True rl refl refl])
      show "col + 1 \<le> colEnd" using True by simp
      show "sc + sd + (colEnd - (col + 1)) * sd \<le> length ?R" using room lR by simp
      show "length ?C = length ?R" using lR lC by simp
    qed
    have lrest: "length ?restR = (colEnd - (col + 1)) * sd"
      by (simp add: length_concat comp_def sum_list_triv)
    have lrestC: "length ?restC = (colEnd - (col + 1)) * sd"
      by (simp add: length_concat comp_def sum_list_triv)
    have u: "[col..<colEnd] = col # [col + 1..<colEnd]"
      using True by (simp add: upt_conv_Cons)
    have "sc + length [rc..<rc + sd] + length ?restR \<le> length rows"
      using room lrest by simp
    from write_list_append [OF this]
    have w1: "write_list (sc + sd) ?restR ?R
        = write_list sc (concat (map (\<lambda>c. [rc..<rc + sd]) [col..<colEnd])) rows"
      by (simp add: u)
    have "sc + length (replicate sd col) + length ?restC \<le> length cols"
      using room lrestC "1.prems"(3) by simp
    from write_list_append [OF this]
    have w2: "write_list (sc + sd) ?restC ?C
        = write_list sc (concat (map (\<lambda>c. replicate sd c) [col..<colEnd])) cols"
      by (simp add: u)
    have c: "sc + sd + (colEnd - (col + 1)) * sd = sc + (colEnd - col) * sd"
      by (simp add: k)
    have "getJacobianSparsityStructure_cols col colEnd rc sd rows cols sc
        = getJacobianSparsityStructure_cols (col + 1) colEnd rc sd ?R ?C (sc + sd)"
      using True rl by (subst getJacobianSparsityStructure_cols.simps) simp
    then show ?thesis
      by (simp only: IH w1 w2 c)
  qed
qed

lemma sparsity_diag_loop:
  assumes "q \<le> sd" and "sc + (sd - q) \<le> length rows"
    and "length cols = length rows"
  shows "getJacobianSparsityStructure_diag q sd rc cc rows cols sc
     = Inr (write_list sc (map (\<lambda>q. rc + q) [q..<sd]) rows,
            write_list sc (map (\<lambda>q. cc + q) [q..<sd]) cols,
            sc + (sd - q))"
  using assms
proof (induction q sd rc cc rows cols sc rule: getJacobianSparsityStructure_diag.induct)
  case (1 q sd rc cc rows cols sc)
  show ?case
  proof (cases "q < sd")
    case False
    with "1.prems" have "q = sd" by simp
    then show ?thesis
      by (subst getJacobianSparsityStructure_diag.simps) (simp add: write_list_Nil)
  next
    case True
    have sr: "sc < length rows" and scl: "sc < length cols"
      using True "1.prems" by simp_all
    have ar: "assign_coeff sc (rc + q) rows = Inr (rows[sc := rc + q])"
      using sr by (rule assign_coeff_update)
    have ac: "assign_coeff sc (cc + q) cols = Inr (cols[sc := cc + q])"
      using scl by (rule assign_coeff_update)
    have IH: "getJacobianSparsityStructure_diag (q + 1) sd rc cc (rows[sc := rc + q])
                (cols[sc := cc + q]) (sc + 1)
        = Inr (write_list (sc + 1) (map (\<lambda>q. rc + q) [q + 1..<sd]) (rows[sc := rc + q]),
               write_list (sc + 1) (map (\<lambda>q. cc + q) [q + 1..<sd]) (cols[sc := cc + q]),
               sc + 1 + (sd - (q + 1)))"
      using True "1.prems" by (intro "1.IH" [OF True ar ac]) simp_all
    have u: "[q..<sd] = q # [q + 1..<sd]"
      using True by (simp add: upt_conv_Cons)
    have w1: "write_list (sc + 1) (map (\<lambda>q. rc + q) [q + 1..<sd]) (rows[sc := rc + q])
        = write_list sc (map (\<lambda>q. rc + q) [q..<sd]) rows"
      using write_list_Cons [OF sr] by (simp only: u list.map Suc_eq_plus1)
    have w2: "write_list (sc + 1) (map (\<lambda>q. cc + q) [q + 1..<sd]) (cols[sc := cc + q])
        = write_list sc (map (\<lambda>q. cc + q) [q..<sd]) cols"
      using write_list_Cons [OF scl] by (simp only: u list.map Suc_eq_plus1)
    have c: "sc + 1 + (sd - (q + 1)) = sc + (sd - q)" using True by simp
    have "getJacobianSparsityStructure_diag q sd rc cc rows cols sc
        = getJacobianSparsityStructure_diag (q + 1) sd rc cc (rows[sc := rc + q])
                (cols[sc := cc + q]) (sc + 1)"
      using True ar ac by (subst getJacobianSparsityStructure_diag.simps) simp
    then show ?thesis
      by (simp only: IH w1 w2 c)
  qed
qed

lemma upt_shift: "[n..<n + m] = map (\<lambda>a. n + a) [0..<m]"
  using map_add_upt [of n m] by (simp add: add.commute)

lemma block_triples_rows:
  "map (\<lambda>t. fst (fst t)) (block_triples J sd d rc cc)
     = concat (map (\<lambda>c. [rc..<rc + sd]) [cc..<cc + d])"
proof -
  have "map (\<lambda>t. fst (fst t)) (block_triples J sd d rc cc)
      = concat (map (\<lambda>b. map (\<lambda>a. rc + a) [0..<sd]) [0..<d])"
    by (simp add: block_triples_def map_concat comp_def)
  also have "\<dots> = concat (map (\<lambda>c. [rc..<rc + sd]) [cc..<cc + d])"
    by (simp add: upt_shift [of rc sd] map_replicate_const)
  finally show ?thesis .
qed

lemma block_triples_cols:
  "map (\<lambda>t. snd (fst t)) (block_triples J sd d rc cc)
     = concat (map (\<lambda>c. replicate sd c) [cc..<cc + d])"
proof -
  have "map (\<lambda>t. snd (fst t)) (block_triples J sd d rc cc)
      = concat (map (\<lambda>b. replicate sd (cc + b)) [0..<d])"
    by (simp add: block_triples_def map_concat comp_def map_replicate_const)
  also have "\<dots> = concat (map (\<lambda>c. replicate sd c) [cc..<cc + d])"
    by (simp add: upt_shift [of cc d] comp_def)
  finally show ?thesis .
qed

lemma block_triples_vals:
  assumes "wf_mat J" and "nrows J = sd" and "ncols J = d"
  shows "map snd (block_triples J sd d rc cc) = concat (columns J)"
proof -
  have cols: "\<And>b. b < d \<Longrightarrow> map (\<lambda>a. coeff J a b) [0..<sd] = columns J ! b"
  proof -
    fix b assume "b < d"
    then have "columns J ! b \<in> set (columns J)" using assms(3) by (simp add: ncols_def)
    then have "length (columns J ! b) = sd"
      using assms(1,2) by (simp add: wf_mat_def list_all_iff)
    then have "map (\<lambda>a. coeff J a b) [0..<sd]
        = map ((!) (columns J ! b)) [0..<length (columns J ! b)]"
      by (simp add: coeff_def)
    also have "\<dots> = columns J ! b" by (rule map_nth)
    finally show "map (\<lambda>a. coeff J a b) [0..<sd] = columns J ! b" .
  qed
  have "map snd (block_triples J sd d rc cc)
      = concat (map (\<lambda>b. map (\<lambda>a. coeff J a b) [0..<sd]) [0..<d])"
    by (simp add: block_triples_def map_concat comp_def)
  also have "\<dots> = concat (map (\<lambda>b. columns J ! b) [0..<d])"
  proof -
    have "map (\<lambda>b. map (\<lambda>a. coeff J a b) [0..<sd]) [0..<d] = map (\<lambda>b. columns J ! b) [0..<d]"
      by (rule map_cong [OF refl]) (simp add: cols)
    then show ?thesis by (simp only:)
  qed
  also have "\<dots> = concat (columns J)"
  proof -
    have "d = length (columns J)" using assms(3) by (simp add: ncols_def)
    then show ?thesis by (simp only: map_nth)
  qed
  finally show ?thesis .
qed

lemma block_triples_length: "length (block_triples J sd d rc cc) = d * sd"
  by (simp add: block_triples_def length_concat comp_def sum_list_triv)

lemma diag_triples_length: "length (diag_triples sd rc cc) = sd"
  by (simp add: diag_triples_def)

lemma diag_triples_rows:
  "map (\<lambda>t. fst (fst t)) (diag_triples sd rc cc) = map (\<lambda>q. rc + q) [0..<sd]"
  by (simp add: diag_triples_def comp_def)

lemma diag_triples_cols:
  "map (\<lambda>t. snd (fst t)) (diag_triples sd rc cc) = map (\<lambda>q. cc + q) [0..<sd]"
  by (simp add: diag_triples_def comp_def)

lemma diag_triples_vals:
  "map snd (diag_triples sd rc cc) = map (\<lambda>x. x * (- 1)) (Ones sd :: ('a::ring_1) list)"
  by (simp add: diag_triples_def comp_def Ones_def map_replicate_const)

lemma drop_butlast_Cons:
  assumes "Suc j < length xs"
  shows "drop j (butlast xs) = xs ! j # drop (Suc j) (butlast xs)"
proof -
  have "j < length (butlast xs)" using assms by simp
  then have "drop j (butlast xs) = butlast xs ! j # drop (Suc j) (butlast xs)"
    by (simp add: Cons_nth_drop_Suc)
  moreover have "butlast xs ! j = xs ! j"
    using assms by (simp add: nth_butlast)
  ultimately show ?thesis by simp
qed

lemma pair_rows:
  "map (\<lambda>t. fst (fst t)) (block_triples J sd d rc cc @ diag_triples sd rc cc')
     = concat (map (\<lambda>c. [rc..<rc + sd]) [cc..<cc + d]) @ map (\<lambda>q. rc + q) [0..<sd]"
  by (simp only: map_append block_triples_rows diag_triples_rows)

lemma pair_cols:
  "map (\<lambda>t. snd (fst t)) (block_triples J sd d rc cc @ diag_triples sd rc cc')
     = concat (map (\<lambda>c. replicate sd c) [cc..<cc + d]) @ map (\<lambda>q. cc' + q) [0..<sd]"
  by (simp only: map_append block_triples_cols diag_triples_cols)

lemma sparsity_knot_loop:
  fixes P :: "('a::ring_1) MultiShot"
  assumes "i = Suc j" and "i \<le> length (mShots P)"
    and "sc + length (knot_triples X world (stateDim P) rc cc (drop j (butlast (mShots P))))
           \<le> length rows"
    and "length cols = length rows"
  shows "getJacobianSparsityStructure_loop P i rc cc rows cols sc
     = Inr (write_list sc
              (map (\<lambda>t. fst (fst t))
                 (knot_triples X world (stateDim P) rc cc (drop j (butlast (mShots P))))) rows,
            write_list sc
              (map (\<lambda>t. snd (fst t))
                 (knot_triples X world (stateDim P) rc cc (drop j (butlast (mShots P))))) cols)"
  using assms
proof (induction P i rc cc rows cols sc arbitrary: j
       rule: getJacobianSparsityStructure_loop.induct)
  case (1 P i rc cc rows cols sc)
  let ?N = "length (mShots P)"
  let ?sd = "stateDim P"
  show ?case
  proof (cases "i < ?N")
    case False
    with "1.prems" have "i = ?N" by simp
    with "1.prems"(1) have "drop j (butlast (mShots P)) = []" by simp
    moreover have "getJacobianSparsityStructure_loop P i rc cc rows cols sc = Inr (rows, cols)"
      using False by (subst getJacobianSparsityStructure_loop.simps) simp
    ultimately show ?thesis by (simp add: write_list_Nil)
  next
    case True
    let ?shot = "mShots P ! (i - 1)"
    let ?d = "SingleShot_getFlatProblemDim ?shot"
    let ?J = "final_jacobian X world ?sd ?shot"
    let ?B = "block_triples ?J ?sd ?d rc cc"
    let ?D = "diag_triples ?sd rc (cc + ?d) :: ((nat \<times> nat) \<times> 'a) list"
    let ?rest = "knot_triples X world ?sd (rc + ?sd) (cc + ?d) (drop (Suc j) (butlast (mShots P)))"
    have ij: "i - 1 = j" using "1.prems"(1) by simp
    have "drop j (butlast (mShots P)) = mShots P ! j # drop (Suc j) (butlast (mShots P))"
      using True "1.prems"(1) by (intro drop_butlast_Cons) simp
    then have dr: "drop j (butlast (mShots P)) = ?shot # drop (Suc j) (butlast (mShots P))"
      by (simp only: ij)
    have T: "knot_triples X world ?sd rc cc (drop j (butlast (mShots P))) = ?B @ ?D @ ?rest"
      by (simp only: dr knot_triples.simps)
    have room: "sc + ?d * ?sd + ?sd + length ?rest \<le> length rows"
      using "1.prems"(3) by (simp add: T block_triples_length diag_triples_length)
    let ?R1 = "write_list sc (concat (map (\<lambda>c. [rc..<rc + ?sd]) [cc..<cc + ?d])) rows"
    let ?C1 = "write_list sc (concat (map (\<lambda>c. replicate ?sd c) [cc..<cc + ?d])) cols"
    have cl: "getJacobianSparsityStructure_cols cc (cc + ?d) rc ?sd rows cols sc
        = Inr (?R1, ?C1, sc + ?d * ?sd)"
      using sparsity_cols_loop [of cc "cc + ?d" sc ?sd rows cols rc] room "1.prems"(4)
      by simp
    have lR1: "length ?R1 = length rows"
      using room by (intro write_list_length) (simp add: length_concat comp_def sum_list_triv)
    have lC1: "length ?C1 = length rows"
      using room "1.prems"(4)
      by (simp add: write_list_length length_concat comp_def sum_list_triv)
    let ?R2 = "write_list (sc + ?d * ?sd) (map (\<lambda>q. rc + q) [0..<?sd]) ?R1"
    let ?C2 = "write_list (sc + ?d * ?sd) (map (\<lambda>q. cc + ?d + q) [0..<?sd]) ?C1"
    have dl: "getJacobianSparsityStructure_diag 0 ?sd rc (cc + ?d) ?R1 ?C1 (sc + ?d * ?sd)
        = Inr (?R2, ?C2, sc + ?d * ?sd + ?sd)"
      using sparsity_diag_loop [of 0 ?sd "sc + ?d * ?sd" ?R1 ?C1 rc "cc + ?d"] room lR1 lC1
      by simp
    have lR2: "length ?R2 = length rows"
      using room lR1 by (simp add: write_list_length)
    have lC2: "length ?C2 = length rows"
      using room lC1 by (simp add: write_list_length)
    have IH: "getJacobianSparsityStructure_loop P (i + 1) (rc + ?sd) (cc + ?d) ?R2 ?C2
                (sc + ?d * ?sd + ?sd)
        = Inr (write_list (sc + ?d * ?sd + ?sd) (map (\<lambda>t. fst (fst t)) ?rest) ?R2,
               write_list (sc + ?d * ?sd + ?sd) (map (\<lambda>t. snd (fst t)) ?rest) ?C2)"
    proof (rule "1.IH" [OF True _ refl refl _ refl refl])
      show "getJacobianSparsityStructure_cols cc
              (cc + SingleShot_getFlatProblemDim (mShots P ! (i - 1))) rc ?sd rows cols sc
          = Inr (?R1, ?C1, sc + ?d * ?sd)"
        by (rule cl)
      show "getJacobianSparsityStructure_diag 0 ?sd rc
              (cc + SingleShot_getFlatProblemDim (mShots P ! (i - 1))) ?R1 ?C1 (sc + ?d * ?sd)
          = Inr (?R2, ?C2, sc + ?d * ?sd + ?sd)"
        by (rule dl)
      show "i + 1 = Suc (Suc j)" using "1.prems"(1) by simp
      show "i + 1 \<le> ?N" using True by simp
      show "sc + ?d * ?sd + ?sd
            + length (knot_triples X world ?sd (rc + ?sd)
                (cc + SingleShot_getFlatProblemDim (mShots P ! (i - 1)))
                (drop (Suc j) (butlast (mShots P)))) \<le> length ?R2"
        using room lR2 by simp
      show "length ?C2 = length ?R2" using lR2 lC2 by simp
    qed
    have step: "getJacobianSparsityStructure_loop P i rc cc rows cols sc
        = getJacobianSparsityStructure_loop P (i + 1) (rc + ?sd) (cc + ?d) ?R2 ?C2
                (sc + ?d * ?sd + ?sd)"
      using True cl dl by (subst getJacobianSparsityStructure_loop.simps) simp
    have R2: "?R2 = write_list sc (map (\<lambda>t. fst (fst t)) (?B @ ?D)) rows"
    proof -
      have "?R2 = write_list (sc + ?d * ?sd) (map (\<lambda>t. fst (fst t)) ?D)
                    (write_list sc (map (\<lambda>t. fst (fst t)) ?B) rows)"
        by (simp only: block_triples_rows diag_triples_rows)
      also have "\<dots> = write_list sc (map (\<lambda>t. fst (fst t)) ?B @ map (\<lambda>t. fst (fst t)) ?D) rows"
        using room
        by (intro write_list_append') (simp_all add: block_triples_length diag_triples_length)
      finally show ?thesis by (simp only: map_append)
    qed
    have C2: "?C2 = write_list sc (map (\<lambda>t. snd (fst t)) (?B @ ?D)) cols"
    proof -
      have "?C2 = write_list (sc + ?d * ?sd) (map (\<lambda>t. snd (fst t)) ?D)
                    (write_list sc (map (\<lambda>t. snd (fst t)) ?B) cols)"
        by (simp only: block_triples_cols diag_triples_cols add.assoc)
      also have "\<dots> = write_list sc (map (\<lambda>t. snd (fst t)) ?B @ map (\<lambda>t. snd (fst t)) ?D) cols"
        using room "1.prems"(4)
        by (intro write_list_append') (simp_all add: block_triples_length diag_triples_length)
      finally show ?thesis by (simp only: map_append)
    qed
    have R3: "write_list (sc + ?d * ?sd + ?sd) (map (\<lambda>t. fst (fst t)) ?rest) ?R2
        = write_list sc (map (\<lambda>t. fst (fst t)) (?B @ ?D @ ?rest)) rows"
    proof -
      have "write_list (sc + ?d * ?sd + ?sd) (map (\<lambda>t. fst (fst t)) ?rest) ?R2
          = write_list (sc + ?d * ?sd + ?sd) (map (\<lambda>t. fst (fst t)) ?rest)
              (write_list sc (map (\<lambda>t. fst (fst t)) (?B @ ?D)) rows)"
        by (simp only: R2)
      also have "\<dots> = write_list sc (map (\<lambda>t. fst (fst t)) (?B @ ?D)
                                     @ map (\<lambda>t. fst (fst t)) ?rest) rows"
        using room
        by (intro write_list_append2) (simp_all add: block_triples_length diag_triples_length)
      finally show ?thesis by (simp only: map_append append_assoc)
    qed
    have C3: "write_list (sc + ?d * ?sd + ?sd) (map (\<lambda>t. snd (fst t)) ?rest) ?C2
        = write_list sc (map (\<lambda>t. snd (fst t)) (?B @ ?D @ ?rest)) cols"
    proof -
      have "write_list (sc + ?d * ?sd + ?sd) (map (\<lambda>t. snd (fst t)) ?rest) ?C2
          = write_list (sc + ?d * ?sd + ?sd) (map (\<lambda>t. snd (fst t)) ?rest)
              (write_list sc (map (\<lambda>t. snd (fst t)) (?B @ ?D)) cols)"
        by (simp only: C2)
      also have "\<dots> = write_list sc (map (\<lambda>t. snd (fst t)) (?B @ ?D)
                                     @ map (\<lambda>t. snd (fst t)) ?rest) cols"
        using room "1.prems"(4)
        by (intro write_list_append2) (simp_all add: block_triples_length diag_triples_length)
      finally show ?thesis by (simp only: map_append append_assoc)
    qed
    show ?thesis
      by (simp only: step IH R3 C3 T)
  qed
qed

lemma length_concat_uniform:
  "\<forall>c \<in> set xss. length c = n \<Longrightarrow> length (concat xss) = length xss * n"
  by (induction xss) simp_all

lemma sparse_cols_loop:
  assumes "col \<le> d" and "d \<le> ncols jac" and "wf_mat jac" and "nrows jac = sd"
    and "sc + (d - col) * sd \<le> length sparse"
  shows "getSparseJacobian_cols jac col d sd sparse sc
     = Inr (write_list sc (concat (drop col (take d (columns jac)))) sparse,
            sc + (d - col) * sd)"
  using assms
proof (induction jac col d sd sparse sc rule: getSparseJacobian_cols.induct)
  case (1 jac col d sd sparse sc)
  show ?case
  proof (cases "col < d")
    case False
    with "1.prems" have "col = d" by simp
    then show ?thesis
      by (subst getSparseJacobian_cols.simps) (simp add: write_list_Nil)
  next
    case True
    let ?v = "columns jac ! col"
    let ?rest = "concat (drop (col + 1) (take d (columns jac)))"
    have cn: "col < ncols jac" using True "1.prems"(2) by simp
    then have "?v \<in> set (columns jac)" by (simp add: ncols_def)
    then have lv: "length ?v = sd"
      using "1.prems"(3,4) by (simp add: wf_mat_def list_all_iff)
    have k: "d - col = Suc (d - (col + 1))" using True by simp
    have room: "sc + sd + (d - (col + 1)) * sd \<le> length sparse"
      using "1.prems"(5) by (simp add: k)
    then have r1: "sc + sd \<le> length sparse" by simp
    have as: "assign_segment sc sd ?v sparse = Inr (write_list sc ?v sparse)"
      using r1 lv by (rule assign_segment_write)
    have ls: "length (write_list sc ?v sparse) = length sparse"
      using r1 lv by (simp add: write_list_length)
    have IH: "getSparseJacobian_cols jac (col + 1) d sd (write_list sc ?v sparse) (sc + sd)
        = Inr (write_list (sc + sd) ?rest (write_list sc ?v sparse),
               sc + sd + (d - (col + 1)) * sd)"
    proof (rule "1.IH" [OF True cn as])
      show "col + 1 \<le> d" using True by simp
      show "d \<le> ncols jac" by (rule "1.prems"(2))
      show "wf_mat jac" by (rule "1.prems"(3))
      show "nrows jac = sd" by (rule "1.prems"(4))
      show "sc + sd + (d - (col + 1)) * sd \<le> length (write_list sc ?v sparse)"
        using room ls by simp
    qed
    have cl: "col < length (take d (columns jac))"
      using True cn by (simp add: ncols_def)
    have dr: "drop col (take d (columns jac)) = ?v # drop (col + 1) (take d (columns jac))"
      using Cons_nth_drop_Suc [OF cl] True by simp
    have lrest: "length ?rest = (d - (col + 1)) * sd"
    proof -
      have "\<forall>c \<in> set (drop (col + 1) (take d (columns jac))). length c = sd"
        using "1.prems"(3,4)
        by (auto simp: wf_mat_def list_all_iff dest!: in_set_dropD in_set_takeD)
      then have "length ?rest = length (drop (col + 1) (take d (columns jac))) * sd"
        by (rule length_concat_uniform)
      moreover have "length (drop (col + 1) (take d (columns jac))) = d - (col + 1)"
        using "1.prems"(2) by (simp add: ncols_def)
      ultimately show ?thesis by simp
    qed
    have w: "write_list (sc + sd) ?rest (write_list sc ?v sparse)
        = write_list sc (concat (drop col (take d (columns jac)))) sparse"
    proof -
      have "write_list (sc + sd) ?rest (write_list sc ?v sparse)
          = write_list sc (?v @ ?rest) sparse"
        using lv room lrest by (intro write_list_append') simp_all
      then show ?thesis by (simp only: dr concat.simps)
    qed
    have c: "sc + sd + (d - (col + 1)) * sd = sc + (d - col) * sd"
      by (simp add: k)
    have "getSparseJacobian_cols jac col d sd sparse sc
        = getSparseJacobian_cols jac (col + 1) d sd (write_list sc ?v sparse) (sc + sd)"
      using True cn as by (subst getSparseJacobian_cols.simps) simp
    then show ?thesis
      by (simp only: IH w c)
  qed
qed

lemma knot_triples_vals_Cons:
  assumes "jacobian_ok X world sd shot"
  shows "map snd (knot_triples X world sd rc cc (shot # rest))
     = concat (columns (final_jacobian X world sd shot))
       @ map (\<lambda>x. x * (- 1)) (Ones sd)
       @ map snd (knot_triples X world sd (rc + sd) (cc + SingleShot_getFlatProblemDim shot) rest)"
  using assms
  by (simp only: knot_triples.simps map_append diag_triples_vals
      block_triples_vals [of "final_jacobian X world sd shot" sd "SingleShot_getFlatProblemDim shot"]
      jacobian_ok_def)

lemma sparse_knot_loop:
  fixes P :: "('a::ring_1) MultiShot"
  assumes "i = Suc j" and "i \<le> length (mShots P)"
    and "sc + length (knot_triples X world (stateDim P) rc cc (drop j (butlast (mShots P))))
           \<le> length sparse"
    and "\<forall>shot \<in> set (drop j (butlast (mShots P))). jacobian_ok X world (stateDim P) shot"
    and "neg = map (\<lambda>x. x * (- 1)) (Ones (stateDim P))"
  shows "getSparseJacobian_loop X world P i neg sparse sc
     = Inr (write_list sc
              (map snd (knot_triples X world (stateDim P) rc cc (drop j (butlast (mShots P)))))
              sparse)"
  using assms
proof (induction X world P i neg sparse sc arbitrary: j rc cc
       rule: getSparseJacobian_loop.induct)
  case (1 X world P i neg sparse sc)
  let ?N = "length (mShots P)"
  let ?sd = "stateDim P"
  let ?neg = "neg"
  have negdef: "neg = map (\<lambda>x. x * (- 1)) (Ones ?sd)" by (rule "1.prems"(5))
  show ?case
  proof (cases "i < ?N")
    case False
    with "1.prems" have "i = ?N" by simp
    with "1.prems"(1) have "drop j (butlast (mShots P)) = []" by simp
    moreover have "getSparseJacobian_loop X world P i ?neg sparse sc = Inr sparse"
      using False by (subst getSparseJacobian_loop.simps) simp
    ultimately show ?thesis by (simp add: write_list_Nil)
  next
    case True
    let ?shot = "mShots P ! (i - 1)"
    let ?d = "SingleShot_getFlatProblemDim ?shot"
    let ?J = "final_jacobian X world ?sd ?shot"
    let ?tail = "drop (Suc j) (butlast (mShots P))"
    let ?rest = "knot_triples X world ?sd (rc + ?sd) (cc + ?d) ?tail"
    have ij: "i - 1 = j" using "1.prems"(1) by simp
    have "drop j (butlast (mShots P)) = mShots P ! j # ?tail"
      using True "1.prems"(1) by (intro drop_butlast_Cons) simp
    then have dr: "drop j (butlast (mShots P)) = ?shot # ?tail"
      by (simp only: ij)
    have ok: "jacobian_ok X world ?sd ?shot"
      and oks: "\<forall>shot \<in> set ?tail. jacobian_ok X world ?sd shot"
      using "1.prems"(4) by (simp_all add: dr)
    have wfJ: "wf_mat ?J" and nr: "nrows ?J = ?sd" and nc: "ncols ?J = ?d"
      using ok by (simp_all add: jacobian_ok_def)
    have lT: "length (knot_triples X world ?sd rc cc (drop j (butlast (mShots P))))
        = ?d * ?sd + ?sd + length ?rest"
      by (simp add: dr block_triples_length diag_triples_length)
    have room: "sc + ?d * ?sd + ?sd + length ?rest \<le> length sparse"
      using "1.prems"(3) by (simp add: lT)
    let ?S1 = "write_list sc (concat (columns ?J)) sparse"
    have lcJ: "length (concat (columns ?J)) = ?d * ?sd"
      using block_triples_vals [OF wfJ nr nc, of 0 0, symmetric]
      by (simp add: block_triples_length)
    have cl: "getSparseJacobian_cols ?J 0 ?d ?sd sparse sc = Inr (?S1, sc + ?d * ?sd)"
      using sparse_cols_loop [of 0 ?d ?J ?sd sc sparse] wfJ nr nc room
      by (simp add: ncols_def)
    have lS1: "length ?S1 = length sparse"
      using room lcJ by (simp add: write_list_length)
    let ?S2 = "write_list (sc + ?d * ?sd) ?neg ?S1"
    have lneg: "length ?neg = ?sd" by (simp add: negdef Ones_def)
    have as: "assign_segment (sc + ?d * ?sd) ?sd ?neg ?S1 = Inr ?S2"
      using room lS1 lneg by (intro assign_segment_write) simp_all
    have lS2: "length ?S2 = length sparse"
      using room lS1 lneg by (simp add: write_list_length)
    have cl': "getSparseJacobian_cols
          (backpropJacobianOfFinalState X world ?shot (Zero ?sd ?d)) 0 ?d ?sd sparse sc
        = Inr (?S1, sc + ?d * ?sd)"
      using cl by (simp only: final_jacobian_def)
    have IH: "getSparseJacobian_loop X world P (i + 1) ?neg ?S2 (sc + ?d * ?sd + ?sd)
        = Inr (write_list (sc + ?d * ?sd + ?sd) (map snd ?rest) ?S2)"
    proof (rule "1.IH" [OF True cl' refl as])
      show "i + 1 = Suc (Suc j)" using "1.prems"(1) by simp
      show "i + 1 \<le> ?N" using True by simp
      show "sc + ?d * ?sd + ?sd + length ?rest \<le> length ?S2" using room lS2 by simp
      show "\<forall>shot \<in> set ?tail. jacobian_ok X world ?sd shot" by (rule oks)
      show "neg = map (\<lambda>x. x * (- 1)) (Ones ?sd)" by (rule negdef)
    qed
    have step: "getSparseJacobian_loop X world P i ?neg sparse sc
        = getSparseJacobian_loop X world P (i + 1) ?neg ?S2 (sc + ?d * ?sd + ?sd)"
      using True cl' as by (subst getSparseJacobian_loop.simps) simp
    have S2: "?S2 = write_list sc (concat (columns ?J) @ ?neg) sparse"
      using room lcJ lneg by (intro write_list_append') simp_all
    have S3: "write_list (sc + ?d * ?sd + ?sd) (map snd ?rest) ?S2
        = write_list sc ((concat (columns ?J) @ ?neg) @ map snd ?rest) sparse"
    proof -
      have "write_list (sc + ?d * ?sd + ?sd) (map snd ?rest) ?S2
          = write_list (sc + ?d * ?sd + ?sd) (map snd ?rest)
              (write_list sc (concat (columns ?J) @ ?neg) sparse)"
        by (simp only: S2)
      also have "\<dots> = write_list sc ((concat (columns ?J) @ ?neg) @ map snd ?rest) sparse"
        using room lcJ lneg by (intro write_list_append2) simp_all
      finally show ?thesis .
    qed
    have V: "map snd (knot_triples X world ?sd rc cc (drop j (butlast (mShots P))))
        = (concat (columns ?J) @ ?neg) @ map snd ?rest"
      using knot_triples_vals_Cons [OF ok, of rc cc ?tail] by (simp only: dr append_assoc negdef)
    show ?thesis
      by (simp only: step IH S3 V)
  qed
qed

lemma put_entry_shape [simp]:
  "nrows (put_entry r c v M) = nrows M" "ncols (put_entry r c v M) = ncols M"
  by (simp_all add: put_entry_def ncols_def)

lemma wf_mat_col: "wf_mat M \<Longrightarrow> j < ncols M \<Longrightarrow> length (columns M ! j) = nrows M"
  by (simp add: wf_mat_def list_all_iff ncols_def)

lemma put_entry_wf:
  assumes "wf_mat M"
  shows "wf_mat (put_entry r c v M)"
proof (cases "c < ncols M")
  case True
  have "set ((columns M)[c := (columns M ! c)[r := v]])
      \<subseteq> insert ((columns M ! c)[r := v]) (set (columns M))"
    by (rule set_update_subset_insert)
  moreover have "length ((columns M ! c)[r := v]) = nrows M"
    using wf_mat_col [OF assms True] by simp
  ultimately show ?thesis
    using assms by (auto simp: put_entry_def wf_mat_def list_all_iff)
next
  case False
  then have "(columns M)[c := (columns M ! c)[r := v]] = columns M"
    by (intro list_update_beyond) (simp add: ncols_def)
  then show ?thesis
    using assms by (simp add: put_entry_def wf_mat_def)
qed

lemma assign_entry_put:
  "r < nrows M \<Longrightarrow> c < ncols M \<Longrightarrow> assign_entry r c v M = Inr (put_entry r c v M)"
  by (simp add: assign_entry_def put_entry_def)

lemma coeff_put_entry:
  assumes "wf_mat M" and "r < nrows M" and "c < ncols M" and "i < nrows M" and "j < ncols M"
  shows "coeff (put_entry r c v M) i j = (if i = r \<and> j = c then v else coeff M i j)"
proof -
  have "length (columns M ! c) = nrows M"
    using assms(1,3) by (simp add: wf_mat_def list_all_iff ncols_def)
  then show ?thesis
    using assms by (simp add: coeff_def put_entry_def ncols_def nth_list_update)
qed

lemma scat_Nil [simp]: "scat [] M = M"
  by (simp add: scat_def)

lemma scat_Cons [simp]:
  "scat (t # T) M = scat T (put_entry (fst (fst t)) (snd (fst t)) (snd t) M)"
  by (simp add: scat_def)

lemma scat_append: "scat (T @ U) M = scat U (scat T M)"
  by (simp add: scat_def)

lemma scat_shape:
  "nrows (scat T M) = nrows M" "ncols (scat T M) = ncols M"
  by (induction T arbitrary: M; simp)+

lemma scat_wf: "wf_mat M \<Longrightarrow> wf_mat (scat T M)"
  by (induction T arbitrary: M) (simp_all add: put_entry_wf)

lemma coeff_scat_other:
  assumes "wf_mat M" and "in_range T M" and "i < nrows M" and "j < ncols M"
    and "\<forall>t \<in> set T. fst t \<noteq> (i, j)"
  shows "coeff (scat T M) i j = coeff M i j"
  using assms
proof (induction T arbitrary: M)
  case Nil
  then show ?case by simp
next
  case (Cons t T)
  let ?M1 = "put_entry (fst (fst t)) (snd (fst t)) (snd t) M"
  have r: "fst (fst t) < nrows M" "snd (fst t) < ncols M"
    using Cons.prems(2) by (simp_all add: in_range_def)
  have ne: "\<not> (i = fst (fst t) \<and> j = snd (fst t))"
    using Cons.prems(5) by (cases t) auto
  have "coeff (scat T ?M1) i j = coeff ?M1 i j"
    using Cons.prems by (intro Cons.IH) (simp_all add: put_entry_wf in_range_def)
  also have "\<dots> = coeff M i j"
    using coeff_put_entry [OF Cons.prems(1) r Cons.prems(3,4)] ne by simp
  finally show ?case by simp
qed

lemma coeff_scat_agree:
  assumes "wf_mat M" and "in_range T M" and "i < nrows M" and "j < ncols M"
    and "\<forall>t \<in> set T. fst t = (i, j) \<longrightarrow> snd t = v"
    and "\<exists>t \<in> set T. fst t = (i, j)"
  shows "coeff (scat T M) i j = v"
  using assms
proof (induction T arbitrary: M)
  case Nil
  then show ?case by simp
next
  case (Cons t T)
  let ?M1 = "put_entry (fst (fst t)) (snd (fst t)) (snd t) M"
  have r: "fst (fst t) < nrows M" "snd (fst t) < ncols M"
    using Cons.prems(2) by (simp_all add: in_range_def)
  have wf1: "wf_mat ?M1" using Cons.prems(1) by (rule put_entry_wf)
  have ir1: "in_range T ?M1" using Cons.prems(2) by (simp add: in_range_def)
  show ?case
  proof (cases "\<exists>u \<in> set T. fst u = (i, j)")
    case True
    have "coeff (scat T ?M1) i j = v"
      using wf1 ir1 Cons.prems(3,4,5) True by (intro Cons.IH) simp_all
    then show ?thesis by simp
  next
    case False
    with Cons.prems(6) have t: "fst t = (i, j)" by auto
    with Cons.prems(5) have tv: "snd t = v" by simp
    have "coeff (scat T ?M1) i j = coeff ?M1 i j"
      using wf1 ir1 Cons.prems(3,4) False by (intro coeff_scat_other) simp_all
    also have "\<dots> = v"
      using coeff_put_entry [OF Cons.prems(1) r Cons.prems(3,4)] t tv by simp
    finally show ?thesis by simp
  qed
qed

lemma mat_eqI:
  assumes "wf_mat A" and "wf_mat B" and "nrows A = nrows B" and "ncols A = ncols B"
    and "\<And>i j. i < nrows A \<Longrightarrow> j < ncols A \<Longrightarrow> coeff A i j = coeff B i j"
  shows "A = (B :: 'a mat)"
proof -
  have "columns A = columns B"
  proof (rule nth_equalityI)
    show "length (columns A) = length (columns B)"
      using assms(4) by (simp add: ncols_def)
    fix j assume j: "j < length (columns A)"
    then have jb: "j < length (columns B)" using assms(4) by (simp add: ncols_def)
    have la: "length (columns A ! j) = nrows A"
      using assms(1) j by (simp add: wf_mat_def list_all_iff)
    have lb: "length (columns B ! j) = nrows A"
      using assms(2,3) jb by (simp add: wf_mat_def list_all_iff)
    show "columns A ! j = columns B ! j"
    proof (rule nth_equalityI)
      show "length (columns A ! j) = length (columns B ! j)" using la lb by simp
      fix i assume "i < length (columns A ! j)"
      then have "i < nrows A" using la by simp
      from assms(5) [OF this] j show "columns A ! j ! i = columns B ! j ! i"
        by (simp add: coeff_def ncols_def)
    qed
  qed
  with assms(3) show ?thesis by simp
qed

lemma scatter_loop_scat:
  assumes "i \<le> numSparse" and "length T = numSparse" and "in_range T M"
  shows "scatter_loop i numSparse (map (\<lambda>t. fst (fst t)) T) (map (\<lambda>t. snd (fst t)) T)
           (map snd T) M
     = Inr (scat (drop i T) M)"
  using assms
proof (induction i numSparse "map (\<lambda>t. fst (fst t)) T" "map (\<lambda>t. snd (fst t)) T" "map snd T" M
       rule: scatter_loop.induct)
  case (1 i numSparse M)
  show ?case
  proof (cases "i < numSparse")
    case False
    with "1.prems" have "drop i T = []" by simp
    moreover have "scatter_loop i numSparse (map (\<lambda>t. fst (fst t)) T)
        (map (\<lambda>t. snd (fst t)) T) (map snd T) M = Inr M"
      using False by (subst scatter_loop.simps) simp
    ultimately show ?thesis by simp
  next
    case True
    let ?t = "T ! i"
    let ?M1 = "put_entry (fst (fst ?t)) (snd (fst ?t)) (snd ?t) M"
    have il: "i < length T" using True "1.prems"(2) by simp
    then have "?t \<in> set T" by simp
    then have r: "fst (fst ?t) < nrows M" "snd (fst ?t) < ncols M"
      using "1.prems"(3) by (simp_all add: in_range_def)
    have ae: "assign_entry (map (\<lambda>t. fst (fst t)) T ! i) (map (\<lambda>t. snd (fst t)) T ! i)
                (map snd T ! i) M = Inr ?M1"
      using il assign_entry_put [OF r] by simp
    have lens: "i < length (map (\<lambda>t. fst (fst t)) T) \<and> i < length (map (\<lambda>t. snd (fst t)) T)
          \<and> i < length (map snd T)"
      using il by simp
    have IH: "scatter_loop (i + 1) numSparse (map (\<lambda>t. fst (fst t)) T)
        (map (\<lambda>t. snd (fst t)) T) (map snd T) ?M1 = Inr (scat (drop (i + 1) T) ?M1)"
      using True "1.prems" by (intro "1.hyps" [OF True lens ae]) (simp_all add: in_range_def)
    have dr: "drop i T = ?t # drop (i + 1) T"
      using Cons_nth_drop_Suc [OF il] by simp
    have "scatter_loop i numSparse (map (\<lambda>t. fst (fst t)) T)
        (map (\<lambda>t. snd (fst t)) T) (map snd T) M
        = scatter_loop (i + 1) numSparse (map (\<lambda>t. fst (fst t)) T)
        (map (\<lambda>t. snd (fst t)) T) (map snd T) ?M1"
      using True lens ae by (subst scatter_loop.simps) simp
    then show ?thesis
      by (simp only: IH dr scat_Cons)
  qed
qed

lemma nth_write_list:
  assumes "c + length vs \<le> length xs" and "k < length xs"
  shows "write_list c vs xs ! k = (if c \<le> k \<and> k < c + length vs then vs ! (k - c) else xs ! k)"
proof -
  have lt: "length (take c xs) = c" using assms(1) by simp
  consider "k < c" | "c \<le> k" "k < c + length vs" | "c + length vs \<le> k" by linarith
  then show ?thesis
  proof cases
    case 1
    have n: "\<not> (c \<le> k \<and> k < c + length vs)" using 1 by linarith
    have "write_list c vs xs ! k = xs ! k"
      using 1 lt by (simp add: write_list_def nth_append)
    then show ?thesis by (simp only: n if_False)
  next
    case 2
    have y: "c \<le> k \<and> k < c + length vs" using 2 by simp
    have "k - c < length vs" using 2 by linarith
    then have "write_list c vs xs ! k = vs ! (k - c)"
      using 2 lt by (simp add: write_list_def nth_append)
    then show ?thesis by (simp only: y if_True simp_thms)
  next
    case 3
    have n: "\<not> (c \<le> k \<and> k < c + length vs)" using 3 by linarith
    have a: "\<not> k < c" and b: "\<not> k - c < length vs" using 3 by linarith+
    have "write_list c vs xs ! k = drop (c + length vs) xs ! (k - c - length vs)"
      using a b lt by (simp add: write_list_def nth_append)
    also have "\<dots> = xs ! k" using 3 assms by simp
    finally show ?thesis by (simp only: n if_False)
  qed
qed

lemma put_block_columns:
  assumes "wf_mat B" and "nrows B = h" and "ncols B = w" and "c + w \<le> ncols M"
  shows "columns (put_block r c h w B M)
     = write_list c (map2 (\<lambda>col b. write_list r b col) (segment c w (columns M)) (columns B))
         (columns M)"
proof -
  have ls: "length (segment c w (columns M)) = w"
    using assms(4) by (simp add: segment_def ncols_def)
  have lb: "length (columns B) = w" using assms(3) by (simp add: ncols_def)
  have hb: "\<forall>b \<in> set (columns B). length b = h"
    using assms(1,2) by (simp add: wf_mat_def list_all_iff)
  have "map2 (\<lambda>col b. take r col @ b @ drop (r + h) col) (segment c w (columns M)) (columns B)
      = map2 (\<lambda>col b. write_list r b col) (segment c w (columns M)) (columns B)"
    using hb by (intro map_cong refl) (auto simp: write_list_def dest: set_zip_rightD)
  then show ?thesis
    using ls lb by (simp add: put_block_def write_list_def)
qed

lemma assign_block_put:
  assumes "r + h \<le> nrows M" and "c + w \<le> ncols M"
    and "wf_mat B" and "nrows B = h" and "ncols B = w"
  shows "assign_block r c h w B M = Inr (put_block r c h w B M)"
  using assms by (simp add: assign_block_def put_block_def)

lemma put_block_nrows [simp]: "nrows (put_block r c h w B M) = nrows M"
  by (simp add: put_block_def)

lemma put_block_ncols:
  assumes "ncols B = w" and "c + w \<le> ncols M"
  shows "ncols (put_block r c h w B M) = ncols M"
  using assms by (simp add: put_block_def ncols_def segment_def)

lemma put_block_column:
  assumes "wf_mat B" and "nrows B = h" and "ncols B = w" and "c + w \<le> ncols M"
    and "j < ncols M"
  shows "columns (put_block r c h w B M) ! j
     = (if c \<le> j \<and> j < c + w then write_list r (columns B ! (j - c)) (columns M ! j)
        else columns M ! j)"
proof -
  let ?mid = "map2 (\<lambda>col b. write_list r b col) (segment c w (columns M)) (columns B)"
  have ls: "length (segment c w (columns M)) = w"
    using assms(4) by (simp add: segment_def ncols_def)
  have lb: "length (columns B) = w" using assms(3) by (simp add: ncols_def)
  have lm: "length ?mid = w" using ls lb by simp
  have "columns (put_block r c h w B M) ! j = write_list c ?mid (columns M) ! j"
    by (simp only: put_block_columns [OF assms(1-4)])
  also have "\<dots> = (if c \<le> j \<and> j < c + length ?mid then ?mid ! (j - c) else columns M ! j)"
    using assms(4,5) lm by (intro nth_write_list) (simp_all add: ncols_def)
  finally have e: "columns (put_block r c h w B M) ! j
      = (if c \<le> j \<and> j < c + w then ?mid ! (j - c) else columns M ! j)"
    by (simp only: lm)
  show ?thesis
  proof (cases "c \<le> j \<and> j < c + w")
    case False
    show ?thesis using False by (simp only: e if_False)
  next
    case True
    then have k: "j - c < w" and cj: "c + (j - c) = j" by linarith+
    have "segment c w (columns M) ! (j - c) = columns M ! j"
      using k cj assms(4) by (simp add: segment_def ncols_def)
    then have m: "?mid ! (j - c) = write_list r (columns B ! (j - c)) (columns M ! j)"
      using k ls lb by simp
    show ?thesis using True by (simp only: e m if_True simp_thms)
  qed
qed

lemma put_block_wf:
  assumes "wf_mat M" and "wf_mat B" and "nrows B = h" and "ncols B = w"
    and "r + h \<le> nrows M" and "c + w \<le> ncols M"
  shows "wf_mat (put_block r c h w B M)"
proof -
  have nc: "ncols (put_block r c h w B M) = ncols M"
    using assms(4,6) by (rule put_block_ncols)
  have "\<forall>j < length (columns (put_block r c h w B M)).
          length (columns (put_block r c h w B M) ! j) = nrows M"
  proof (intro allI impI)
    fix j assume "j < length (columns (put_block r c h w B M))"
    then have j: "j < ncols M" using nc by (simp add: ncols_def)
    have lm: "length (columns M ! j) = nrows M" using assms(1) j by (rule wf_mat_col)
    show "length (columns (put_block r c h w B M) ! j) = nrows M"
    proof (cases "c \<le> j \<and> j < c + w")
      case False
      note e = put_block_column [OF assms(2,3,4,6) j, of r]
      show ?thesis
        using False by (simp only: e if_False lm)
    next
      case True
      then have "j - c < ncols B" using assms(4) by linarith
      then have "length (columns B ! (j - c)) = h"
        using wf_mat_col [OF assms(2)] assms(3) by simp
      then have "length (write_list r (columns B ! (j - c)) (columns M ! j)) = nrows M"
        using assms(5) lm by (simp add: write_list_length)
      then show ?thesis
        using True by (simp only: put_block_column [OF assms(2,3,4,6) j, of r] if_True simp_thms)
    qed
  qed
  then show ?thesis
    by (simp add: wf_mat_def list_all_length)
qed

lemma coeff_put_block:
  assumes "wf_mat M" and "wf_mat B" and "nrows B = h" and "ncols B = w"
    and "r + h \<le> nrows M" and "c + w \<le> ncols M" and "i < nrows M" and "j < ncols M"
  shows "coeff (put_block r c h w B M) i j
     = (if c \<le> j \<and> j < c + w \<and> r \<le> i \<and> i < r + h then coeff B (i - r) (j - c)
        else coeff M i j)"
proof (cases "c \<le> j \<and> j < c + w")
  case False
  then show ?thesis
    using put_block_column [OF assms(2,3,4,6,8), of r] by (auto simp: coeff_def)
next
  case True
  then have "j - c < ncols B" using assms(4) by linarith
  then have lb: "length (columns B ! (j - c)) = h"
    using wf_mat_col [OF assms(2)] assms(3) by simp
  have lm: "length (columns M ! j) = nrows M" using assms(1,8) by (rule wf_mat_col)
  have "coeff (put_block r c h w B M) i j
      = write_list r (columns B ! (j - c)) (columns M ! j) ! i"
    using put_block_column [OF assms(2,3,4,6,8), of r] True by (simp add: coeff_def)
  also have "\<dots> = (if r \<le> i \<and> i < r + length (columns B ! (j - c))
                    then columns B ! (j - c) ! (i - r) else columns M ! j ! i)"
    using assms(5,7) lb lm by (intro nth_write_list) simp_all
  finally show ?thesis
    using True lb by (simp add: coeff_def)
qed

lemma Zero_nrows [simp]: "nrows (Zero r c) = r"
  by (simp add: Zero_def)

lemma Zero_ncols [simp]: "ncols (Zero r c) = c"
  by (simp add: Zero_def ncols_def)

lemma Zero_wf: "wf_mat (Zero r c)"
  by (auto simp: Zero_def wf_mat_def list_all_iff)

lemma coeff_Zero: "i < r \<Longrightarrow> j < c \<Longrightarrow> coeff (Zero r c) i j = 0"
  by (simp add: Zero_def coeff_def)

lemma zero_below_Zero: "zero_below k (Zero r c)"
  by (simp add: zero_below_def coeff_Zero)

lemma zero_below_mono: "zero_below r M \<Longrightarrow> r \<le> r' \<Longrightarrow> zero_below r' M"
  by (simp add: zero_below_def)

lemma block_nrows [simp]: "nrows (block r c h w M) = h"
  by (simp add: block_def)

lemma block_ncols: "c + w \<le> ncols M \<Longrightarrow> ncols (block r c h w M) = w"
  by (simp add: block_def ncols_def segment_def)

lemma block_wf:
  assumes "wf_mat M" and "r + h \<le> nrows M"
  shows "wf_mat (block r c h w M)"
proof -
  have "\<And>col. col \<in> set (segment c w (columns M)) \<Longrightarrow> length (segment r h col) = h"
  proof -
    fix col assume "col \<in> set (segment c w (columns M))"
    then have "col \<in> set (columns M)"
      by (auto simp: segment_def dest: in_set_takeD in_set_dropD)
    then have "length col = nrows M" using assms(1) by (simp add: wf_mat_def list_all_iff)
    then show "length (segment r h col) = h" using assms(2) by (simp add: segment_def)
  qed
  then show ?thesis by (simp add: wf_mat_def list_all_iff block_def)
qed

lemma coeff_block:
  assumes "wf_mat M" and "r + h \<le> nrows M" and "c + w \<le> ncols M" and "i < h" and "j < w"
  shows "coeff (block r c h w M) i j = coeff M (r + i) (c + j)"
proof -
  have j: "c + j < ncols M" using assms(3,5) by simp
  have l: "length (columns M ! (c + j)) = nrows M" using assms(1) j by (rule wf_mat_col)
  have "segment c w (columns M) ! j = columns M ! (c + j)"
    using assms(3,5) by (simp add: segment_def ncols_def)
  moreover have "segment r h (columns M ! (c + j)) ! i = columns M ! (c + j) ! (r + i)"
    using assms(2,4) l by (simp add: segment_def)
  moreover have "j < length (segment c w (columns M))"
    using assms(3,5) by (simp add: segment_def ncols_def)
  ultimately show ?thesis by (simp add: coeff_def block_def)
qed

lemma block_zero:
  assumes "wf_mat M" and "zero_below r M" and "r + h \<le> nrows M" and "c + w \<le> ncols M"
  shows "block r c h w M = Zero h w"
proof (rule mat_eqI)
  show "wf_mat (block r c h w M)" using assms(1,3) by (rule block_wf)
  show "wf_mat (Zero h w :: 'a mat)" by (rule Zero_wf)
  show "nrows (block r c h w M) = nrows (Zero h w :: 'a mat)" by simp
  show "ncols (block r c h w M) = ncols (Zero h w :: 'a mat)"
    using assms(4) by (simp add: block_ncols)
next
  fix i j assume "i < nrows (block r c h w M)" and "j < ncols (block r c h w M)"
  then have i: "i < h" and j: "j < w" using assms(4) by (simp_all add: block_ncols)
  have "coeff (block r c h w M) i j = coeff M (r + i) (c + j)"
    using assms(1,3,4) i j by (rule coeff_block)
  also have "\<dots> = 0"
    using assms(2,3,4) i j by (simp add: zero_below_def)
  finally show "coeff (block r c h w M) i j = coeff (Zero h w) i j"
    using i j by (simp add: coeff_Zero)
qed

lemma block_triples_set:
  "t \<in> set (block_triples J sd d rc cc)
     \<longleftrightarrow> (\<exists>a < sd. \<exists>b < d. t = ((rc + a, cc + b), coeff J a b))"
  by (force simp: block_triples_def)

lemma diag_triples_set:
  "t \<in> set (diag_triples sd rc cc) \<longleftrightarrow> (\<exists>q < sd. t = ((rc + q, cc + q), 1 * (- 1)))"
  by (auto simp: diag_triples_def)

lemma block_triples_in_range:
  assumes "rc + sd \<le> nrows M" and "cc + d \<le> ncols M"
  shows "in_range (block_triples J sd d rc cc) M"
  using assms by (auto simp: in_range_def block_triples_set)

lemma diag_triples_in_range:
  assumes "rc + sd \<le> nrows M" and "cc + sd \<le> ncols M"
  shows "in_range (diag_triples sd rc cc) M"
  using assms by (auto simp: in_range_def diag_triples_set)

lemma scat_block:
  assumes "wf_mat M" and "wf_mat J" and "nrows J = sd" and "ncols J = d"
    and "rc + sd \<le> nrows M" and "cc + d \<le> ncols M"
  shows "scat (block_triples J sd d rc cc) M = put_block rc cc sd d J M"
proof (rule mat_eqI)
  let ?T = "block_triples J sd d rc cc"
  show "wf_mat (scat ?T M)" using assms(1) by (rule scat_wf)
  show "wf_mat (put_block rc cc sd d J M)" using assms by (rule put_block_wf)
  show "nrows (scat ?T M) = nrows (put_block rc cc sd d J M)" by (simp add: scat_shape)
  show "ncols (scat ?T M) = ncols (put_block rc cc sd d J M)"
    using assms(4,6) by (simp add: scat_shape put_block_ncols)
next
  let ?T = "block_triples J sd d rc cc"
  fix i j assume "i < nrows (scat ?T M)" and "j < ncols (scat ?T M)"
  then have i: "i < nrows M" and j: "j < ncols M" by (simp_all add: scat_shape)
  have ir: "in_range ?T M" using assms(5,6) by (rule block_triples_in_range)
  note pb = coeff_put_block [OF assms i j]
  show "coeff (scat ?T M) i j = coeff (put_block rc cc sd d J M) i j"
  proof (cases "cc \<le> j \<and> j < cc + d \<and> rc \<le> i \<and> i < rc + sd")
    case True
    have a: "\<forall>t \<in> set ?T. fst t = (i, j) \<longrightarrow> snd t = coeff J (i - rc) (j - cc)"
      by (auto simp: block_triples_set)
    have lt: "i - rc < sd" "j - cc < d" using True by linarith+
    have eq: "rc + (i - rc) = i" "cc + (j - cc) = j" using True by linarith+
    have "((i, j), coeff J (i - rc) (j - cc))
            = ((rc + (i - rc), cc + (j - cc)), coeff J (i - rc) (j - cc))"
      by (simp only: eq)
    with lt have "((i, j), coeff J (i - rc) (j - cc)) \<in> set ?T"
      unfolding block_triples_set by blast
    then have e: "\<exists>t \<in> set ?T. fst t = (i, j)" by force
    have "coeff (scat ?T M) i j = coeff J (i - rc) (j - cc)"
      using assms(1) ir i j a e by (rule coeff_scat_agree)
    then show ?thesis using True by (simp only: pb if_True simp_thms)
  next
    case False
    have "\<forall>t \<in> set ?T. fst t \<noteq> (i, j)"
      using False by (auto simp: block_triples_set)
    with assms(1) ir i j have "coeff (scat ?T M) i j = coeff M i j"
      by (rule coeff_scat_other)
    then show ?thesis using False by (simp only: pb if_False)
  qed
qed

lemma neg_Identity_shape:
  "wf_mat (smult (- 1) (Identity sd :: ('a::ring_1) mat))"
  "nrows (smult (- 1) (Identity sd :: ('a::ring_1) mat)) = sd"
  "ncols (smult (- 1) (Identity sd :: ('a::ring_1) mat)) = sd"
  by (simp_all add: smult_def Identity_def wf_mat_def list_all_iff ncols_def)

lemma coeff_neg_Identity:
  assumes "a < sd" and "b < sd"
  shows "coeff (smult (- 1) (Identity sd :: ('a::ring_1) mat)) a b = (if a = b then - 1 else 0)"
  using assms by (simp add: smult_def Identity_def coeff_def)

lemma scat_diag:
  fixes M :: "('a::ring_1) mat"
  assumes "wf_mat M" and "rc + sd \<le> nrows M" and "cc + sd \<le> ncols M"
    and z: "\<And>i j. rc \<le> i \<Longrightarrow> i < rc + sd \<Longrightarrow> cc \<le> j \<Longrightarrow> j < cc + sd \<Longrightarrow> coeff M i j = 0"
  shows "scat (diag_triples sd rc cc) M
     = put_block rc cc sd sd (smult (- 1) (Identity sd)) M"
proof (rule mat_eqI)
  let ?T = "diag_triples sd rc cc :: ((nat \<times> nat) \<times> 'a) list"
  let ?B = "smult (- 1) (Identity sd) :: 'a mat"
  show "wf_mat (scat ?T M)" using assms(1) by (rule scat_wf)
  show "wf_mat (put_block rc cc sd sd ?B M)"
    using assms(1) neg_Identity_shape assms(2,3) by (rule put_block_wf)
  show "nrows (scat ?T M) = nrows (put_block rc cc sd sd ?B M)" by (simp add: scat_shape)
  show "ncols (scat ?T M) = ncols (put_block rc cc sd sd ?B M)"
    using assms(3) by (simp add: scat_shape put_block_ncols neg_Identity_shape)
next
  let ?T = "diag_triples sd rc cc :: ((nat \<times> nat) \<times> 'a) list"
  let ?B = "smult (- 1) (Identity sd) :: 'a mat"
  fix i j assume "i < nrows (scat ?T M)" and "j < ncols (scat ?T M)"
  then have i: "i < nrows M" and j: "j < ncols M" by (simp_all add: scat_shape)
  have ir: "in_range ?T M" using assms(2,3) by (rule diag_triples_in_range)
  note pb = coeff_put_block [OF assms(1) neg_Identity_shape assms(2,3) i j]
  show "coeff (scat ?T M) i j = coeff (put_block rc cc sd sd ?B M) i j"
  proof (cases "cc \<le> j \<and> j < cc + sd \<and> rc \<le> i \<and> i < rc + sd")
    case False
    have "\<forall>t \<in> set ?T. fst t \<noteq> (i, j)"
      using False by (auto simp: diag_triples_set)
    with assms(1) ir i j have "coeff (scat ?T M) i j = coeff M i j"
      by (rule coeff_scat_other)
    then show ?thesis using False by (simp only: pb if_False)
  next
    case True
    then have ab: "i - rc < sd" "j - cc < sd" by linarith+
    have rhs: "coeff (put_block rc cc sd sd ?B M) i j = (if i - rc = j - cc then - 1 else 0)"
      using True by (simp only: pb if_True simp_thms coeff_neg_Identity [OF ab])
    show ?thesis
    proof (cases "i - rc = j - cc")
      case same: True
      have a: "\<forall>t \<in> set ?T. fst t = (i, j) \<longrightarrow> snd t = - 1"
        by (auto simp: diag_triples_set)
      have eq: "rc + (i - rc) = i" "cc + (i - rc) = j" using True same by linarith+
      have "((i, j), 1 * (- 1) :: 'a) = ((rc + (i - rc), cc + (i - rc)), 1 * (- 1))"
        by (simp only: eq)
      with ab(1) have "((i, j), 1 * (- 1)) \<in> set ?T"
        unfolding diag_triples_set by blast
      then have e: "\<exists>t \<in> set ?T. fst t = (i, j)" by force
      have "coeff (scat ?T M) i j = - 1"
        using assms(1) ir i j a e by (rule coeff_scat_agree)
      then show ?thesis using same by (simp add: rhs)
    next
      case diff: False
      have "\<forall>t \<in> set ?T. fst t \<noteq> (i, j)"
        using diff True by (auto simp: diag_triples_set)
      with assms(1) ir i j have "coeff (scat ?T M) i j = coeff M i j"
        by (rule coeff_scat_other)
      also have "\<dots> = 0" using True by (intro z) simp_all
      finally show ?thesis using diff by (simp add: rhs)
    qed
  qed
qed

lemma zero_below_put_block:
  assumes "wf_mat M" and "wf_mat B" and "nrows B = h" and "ncols B = w"
    and "r + h \<le> nrows M" and "c + w \<le> ncols M"
    and "zero_below k M" and "r + h \<le> k"
  shows "zero_below k (put_block r c h w B M)"
proof -
  have "\<And>i j. j < ncols M \<Longrightarrow> i < nrows M \<Longrightarrow> k \<le> i
      \<Longrightarrow> coeff (put_block r c h w B M) i j = 0"
  proof -
    fix i j assume j: "j < ncols M" and i: "i < nrows M" and ki: "k \<le> i"
    have n: "\<not> (c \<le> j \<and> j < c + w \<and> r \<le> i \<and> i < r + h)" using ki assms(8) by linarith
    have "coeff (put_block r c h w B M) i j = coeff M i j"
      by (simp only: coeff_put_block [OF assms(1-6) i j] n if_False)
    also have "\<dots> = 0" using assms(7) i j ki by (simp add: zero_below_def)
    finally show "coeff (put_block r c h w B M) i j = 0" .
  qed
  then show ?thesis
    using assms(4,6) by (simp add: zero_below_def put_block_ncols)
qed

lemma in_range_append: "in_range (T @ U) M \<longleftrightarrow> in_range T M \<and> in_range U M"
  by (auto simp: in_range_def)

lemma in_range_shape:
  "nrows M' = nrows M \<Longrightarrow> ncols M' = ncols M \<Longrightarrow> in_range T M \<Longrightarrow> in_range T M'"
  by (simp add: in_range_def)

lemma knot_triples_in_range:
  fixes X :: "('w, 'a::ring_1) SingleShot_methods"
  assumes "fits sd rc cc shots (nrows M) (ncols M)"
  shows "in_range (knot_triples X world sd rc cc shots) M"
  using assms
proof (induction shots arbitrary: rc cc)
  case Nil
  then show ?case by (simp add: in_range_def)
next
  case (Cons shot rest)
  let ?d = "SingleShot_getFlatProblemDim shot"
  have r: "rc + sd \<le> nrows M" and c: "cc + ?d + sd \<le> ncols M"
    and f: "fits sd (rc + sd) (cc + ?d) rest (nrows M) (ncols M)"
    using Cons.prems by simp_all
  have c': "cc + ?d \<le> ncols M" using c by simp
  have 1: "in_range (block_triples (final_jacobian X world sd shot) sd ?d rc cc) M"
    using r c' by (rule block_triples_in_range)
  have 2: "in_range (diag_triples sd rc (cc + ?d) :: ((nat \<times> nat) \<times> 'a) list) M"
    using r c by (rule diag_triples_in_range)
  have 3: "in_range (knot_triples X world sd (rc + sd) (cc + ?d) rest) M"
    using f by (rule Cons.IH)
  show ?case
    using 1 2 3 by (simp only: knot_triples.simps in_range_append simp_thms)
qed

lemma dense_step:
  fixes M :: "('a::ring_1) mat"
  assumes "wf_mat M" and "zero_below rc M"
    and "rc + sd \<le> nrows M" and "cc + d + sd \<le> ncols M"
    and "wf_mat J" and "nrows J = sd" and "ncols J = d"
  shows "block rc cc sd d M = Zero sd d"
    and "assign_block rc cc sd d J M = Inr (scat (block_triples J sd d rc cc) M)"
    and "assign_block rc (cc + d) sd sd (smult (- 1) (Identity sd))
           (scat (block_triples J sd d rc cc) M)
         = Inr (scat (block_triples J sd d rc cc @ diag_triples sd rc (cc + d)) M)"
    and "zero_below (rc + sd)
           (scat (block_triples J sd d rc cc @ diag_triples sd rc (cc + d)) M)"
proof -
  let ?B = "smult (- 1) (Identity sd) :: 'a mat"
  let ?M1 = "put_block rc cc sd d J M"
  let ?M2 = "put_block rc (cc + d) sd sd ?B ?M1"
  have c: "cc + d \<le> ncols M" using assms(4) by simp
  show "block rc cc sd d M = Zero sd d"
    using assms(1,2,3) c by (rule block_zero)
  have s1: "scat (block_triples J sd d rc cc) M = ?M1"
    using assms(1,5,6,7,3) c by (rule scat_block)
  have a1: "assign_block rc cc sd d J M = Inr ?M1"
    using assms(3) c assms(5,6,7) by (rule assign_block_put)
  show "assign_block rc cc sd d J M = Inr (scat (block_triples J sd d rc cc) M)"
    by (simp only: a1 s1)
  have wf1: "wf_mat ?M1" using assms(1,5,6,7,3) c by (rule put_block_wf)
  have nr1: "nrows ?M1 = nrows M" by simp
  have nc1: "ncols ?M1 = ncols M" using assms(7) c by (rule put_block_ncols)
  have r1: "rc + sd \<le> nrows ?M1" using assms(3) by (simp only: nr1)
  have c1: "cc + d + sd \<le> ncols ?M1" using assms(4) by (simp only: nc1)
  have z1: "\<And>i j. rc \<le> i \<Longrightarrow> i < rc + sd \<Longrightarrow> cc + d \<le> j \<Longrightarrow> j < cc + d + sd
      \<Longrightarrow> coeff ?M1 i j = 0"
  proof -
    fix i j assume i: "rc \<le> i" "i < rc + sd" and j: "cc + d \<le> j" "j < cc + d + sd"
    have i': "i < nrows M" using i assms(3) by linarith
    have j': "j < ncols M" using j assms(4) by linarith
    have n: "\<not> (cc \<le> j \<and> j < cc + d \<and> rc \<le> i \<and> i < rc + sd)" using j by linarith
    have "coeff ?M1 i j = coeff M i j"
      by (simp only: coeff_put_block [OF assms(1,5,6,7,3) c i' j'] n if_False)
    also have "\<dots> = 0" using assms(2) i i' j' by (simp add: zero_below_def)
    finally show "coeff ?M1 i j = 0" .
  qed
  have s2: "scat (diag_triples sd rc (cc + d)) ?M1 = ?M2"
    using wf1 r1 c1 z1 by (rule scat_diag)
  have a2: "assign_block rc (cc + d) sd sd ?B ?M1 = Inr ?M2"
    using r1 c1 neg_Identity_shape by (rule assign_block_put)
  have s12: "scat (block_triples J sd d rc cc @ diag_triples sd rc (cc + d)) M = ?M2"
    by (simp only: scat_append s1 s2)
  show "assign_block rc (cc + d) sd sd ?B (scat (block_triples J sd d rc cc) M)
      = Inr (scat (block_triples J sd d rc cc @ diag_triples sd rc (cc + d)) M)"
    by (simp only: s1 a2 s12)
  have zb1: "zero_below (rc + sd) ?M1"
  proof (rule zero_below_put_block [OF assms(1,5,6,7,3) c])
    show "zero_below (rc + sd) M" using assms(2) by (rule zero_below_mono) simp
    show "rc + sd \<le> rc + sd" by simp
  qed
  have "zero_below (rc + sd) ?M2"
    using wf1 neg_Identity_shape r1 c1 zb1 by (rule zero_below_put_block) simp
  then show "zero_below (rc + sd)
      (scat (block_triples J sd d rc cc @ diag_triples sd rc (cc + d)) M)"
    by (simp only: s12)
qed

lemma dense_knot_loop:
  fixes P :: "('a::ring_1) MultiShot"
  assumes "i = Suc j" and "i \<le> length (mShots P)" and "wf_mat M" and "zero_below rc M"
    and "fits (stateDim P) rc cc (drop j (butlast (mShots P))) (nrows M) (ncols M)"
    and "\<forall>shot \<in> set (drop j (butlast (mShots P))). jacobian_ok X world (stateDim P) shot"
  shows "backpropJacobian_loop X world P i rc cc M
     = Inr (rc + stateDim P * length (drop j (butlast (mShots P))),
            cc + sum_list (map SingleShot_getFlatProblemDim (drop j (butlast (mShots P)))),
            scat (knot_triples X world (stateDim P) rc cc (drop j (butlast (mShots P)))) M)"
  using assms
proof (induction X world P i rc cc M arbitrary: j rule: backpropJacobian_loop.induct)
  case (1 X world P i rc cc M)
  let ?N = "length (mShots P)"
  let ?sd = "stateDim P"
  show ?case
  proof (cases "i < ?N")
    case False
    with "1.prems" have "i = ?N" by simp
    with "1.prems"(1) have "drop j (butlast (mShots P)) = []" by simp
    moreover have "backpropJacobian_loop X world P i rc cc M = Inr (rc, cc, M)"
      using False by (subst backpropJacobian_loop.simps) simp
    ultimately show ?thesis by simp
  next
    case True
    let ?shot = "mShots P ! (i - 1)"
    let ?d = "SingleShot_getFlatProblemDim ?shot"
    let ?J = "final_jacobian X world ?sd ?shot"
    let ?tail = "drop (Suc j) (butlast (mShots P))"
    let ?T = "block_triples ?J ?sd ?d rc cc"
    let ?D = "diag_triples ?sd rc (cc + ?d) :: ((nat \<times> nat) \<times> 'a) list"
    let ?M1 = "scat ?T M"
    let ?M2 = "scat (?T @ ?D) M"
    have ij: "i - 1 = j" using "1.prems"(1) by simp
    have "drop j (butlast (mShots P)) = mShots P ! j # ?tail"
      using True "1.prems"(1) by (intro drop_butlast_Cons) simp
    then have dr: "drop j (butlast (mShots P)) = ?shot # ?tail"
      by (simp only: ij)
    have ok: "jacobian_ok X world ?sd ?shot"
      and oks: "\<forall>shot \<in> set ?tail. jacobian_ok X world ?sd shot"
      using "1.prems"(6) by (simp_all add: dr)
    have wfJ: "wf_mat ?J" and nr: "nrows ?J = ?sd" and nc: "ncols ?J = ?d"
      using ok by (simp_all add: jacobian_ok_def)
    have r: "rc + ?sd \<le> nrows M" and c: "cc + ?d + ?sd \<le> ncols M"
      and f: "fits ?sd (rc + ?sd) (cc + ?d) ?tail (nrows M) (ncols M)"
      using "1.prems"(5) by (simp_all add: dr)
    note ds = dense_step [OF "1.prems"(3,4) r c wfJ nr nc]
    have bj: "backpropJacobianOfFinalState X world ?shot (block rc cc ?sd ?d M) = ?J"
      by (simp only: ds(1) final_jacobian_def)
    have a1: "assign_block rc cc ?sd ?d
          (backpropJacobianOfFinalState X world ?shot (block rc cc ?sd ?d M)) M = Inr ?M1"
      by (simp only: bj ds(2))
    have a2: "assign_block rc (cc + ?d) ?sd ?sd (smult (- 1) (Identity ?sd)) ?M1 = Inr ?M2"
      by (rule ds(3))
    have sh: "nrows ?M2 = nrows M" "ncols ?M2 = ncols M" by (simp_all only: scat_shape)
    have IH: "backpropJacobian_loop X world P (i + 1) (rc + ?sd) (cc + ?d) ?M2
        = Inr (rc + ?sd + ?sd * length ?tail,
               cc + ?d + sum_list (map SingleShot_getFlatProblemDim ?tail),
               scat (knot_triples X world ?sd (rc + ?sd) (cc + ?d) ?tail) ?M2)"
    proof (rule "1.IH" [OF True a1 a2])
      show "i + 1 = Suc (Suc j)" using "1.prems"(1) by simp
      show "i + 1 \<le> ?N" using True by simp
      show "wf_mat ?M2" using "1.prems"(3) by (rule scat_wf)
      show "zero_below (rc + ?sd) ?M2" by (rule ds(4))
      show "fits ?sd (rc + ?sd) (cc + ?d) ?tail (nrows ?M2) (ncols ?M2)"
        using f by (simp only: sh)
      show "\<forall>shot \<in> set ?tail. jacobian_ok X world ?sd shot" by (rule oks)
    qed
    have step: "backpropJacobian_loop X world P i rc cc M
        = backpropJacobian_loop X world P (i + 1) (rc + ?sd) (cc + ?d) ?M2"
      using True a1 a2 by (subst backpropJacobian_loop.simps) simp
    have K: "scat (knot_triples X world ?sd rc cc (drop j (butlast (mShots P)))) M
        = scat (knot_triples X world ?sd (rc + ?sd) (cc + ?d) ?tail) ?M2"
      by (simp only: dr knot_triples.simps scat_append append_assoc)
    have L: "rc + ?sd * length (drop j (butlast (mShots P))) = rc + ?sd + ?sd * length ?tail"
      by (simp add: dr)
    have S: "cc + sum_list (map SingleShot_getFlatProblemDim (drop j (butlast (mShots P))))
        = cc + ?d + sum_list (map SingleShot_getFlatProblemDim ?tail)"
      by (simp add: dr)
    show ?thesis
      by (simp only: step IH K L S)
  qed
qed

lemma fits_butlast:
  assumes "shots \<noteq> []"
    and "\<forall>shot \<in> set (tl shots). sd \<le> SingleShot_getFlatProblemDim shot"
    and "rc + sd * (length shots - 1) \<le> nr"
    and "cc + sum_list (map SingleShot_getFlatProblemDim shots) \<le> nc"
  shows "fits sd rc cc (butlast shots) nr nc"
  using assms
proof (induction shots arbitrary: rc cc)
  case Nil
  then show ?case by simp
next
  case (Cons shot rest)
  show ?case
  proof (cases "rest = []")
    case True
    then show ?thesis by simp
  next
    case False
    then obtain s rest' where rest: "rest = s # rest'" by (cases rest) auto
    let ?d = "SingleShot_getFlatProblemDim shot"
    have sd: "sd \<le> SingleShot_getFlatProblemDim s" using Cons.prems(2) rest by simp
    have "rc + sd + sd * (length rest - 1) \<le> nr" using Cons.prems(3) rest by simp
    then have r: "rc + sd \<le> nr" and r': "rc + sd + sd * (length rest - 1) \<le> nr" by simp_all
    have c': "cc + ?d + sum_list (map SingleShot_getFlatProblemDim rest) \<le> nc"
      using Cons.prems(4) by simp
    then have c: "cc + ?d + sd \<le> nc" using sd rest by simp
    have "fits sd (rc + sd) (cc + ?d) (butlast rest) nr nc"
      using False _ r' c'
    proof (rule Cons.IH)
      show "\<forall>shot \<in> set (tl rest). sd \<le> SingleShot_getFlatProblemDim shot"
        using Cons.prems(2) rest by simp
    qed
    then show ?thesis using False r c by simp
  qed
qed

lemma knot_triples_length:
  "length (knot_triples X world sd rc cc shots)
     = sum_list (map (\<lambda>shot. SingleShot_getFlatProblemDim shot * sd + sd) shots)"
  by (induction shots arbitrary: rc cc)
     (simp_all add: block_triples_length diag_triples_length)

lemma sum_butlast_nth:
  "(\<Sum>k = 0..<length xs - 1. f (xs ! k)) = sum_list (map f (butlast xs))"
proof -
  have "sum_list (map f (butlast xs))
      = (\<Sum>k = 0..<length (map f (butlast xs)). map f (butlast xs) ! k)"
    by (simp only: sum_list_sum_nth atLeast0LessThan)
  also have "\<dots> = (\<Sum>k = 0..<length xs - 1. f (xs ! k))"
    by (rule sum.cong) (simp_all add: nth_butlast)
  finally show ?thesis by simp
qed

lemma assign_empty_block:
  assumes "wf_mat M"
  shows "assign_block 0 0 0 (ncols M) (block 0 0 0 (ncols M) M) M = Inr M"
proof -
  let ?B = "block 0 0 0 (ncols M) M"
  have wfB: "wf_mat ?B" using assms by (rule block_wf) simp
  have nrB: "nrows ?B = 0" by simp
  have ncB: "ncols ?B = ncols M" by (rule block_ncols) simp
  have r: "0 + 0 \<le> nrows M" and c: "0 + ncols M \<le> ncols M" by simp_all
  have "assign_block 0 0 0 (ncols M) ?B M = Inr (put_block 0 0 0 (ncols M) ?B M)"
    using r c wfB nrB ncB by (rule assign_block_put)
  moreover have "put_block 0 0 0 (ncols M) ?B M = M"
  proof (rule mat_eqI)
    show "wf_mat (put_block 0 0 0 (ncols M) ?B M)"
      using assms wfB nrB ncB r c by (rule put_block_wf)
    show "wf_mat M" by (rule assms)
    show "nrows (put_block 0 0 0 (ncols M) ?B M) = nrows M" by simp
    show nc: "ncols (put_block 0 0 0 (ncols M) ?B M) = ncols M"
      using ncB c by (rule put_block_ncols)
    fix i j
    assume "i < nrows (put_block 0 0 0 (ncols M) ?B M)"
      and "j < ncols (put_block 0 0 0 (ncols M) ?B M)"
    then have i: "i < nrows M" and j: "j < ncols M" using nc by simp_all
    show "coeff (put_block 0 0 0 (ncols M) ?B M) i j = coeff M i j"
      using coeff_put_block [OF assms wfB nrB ncB r c i j] by simp
  qed
  ultimately show ?thesis by simp
qed

lemma verifySparseJacobian_without_custom_constraints:
  fixes P :: "('a::ring_1) MultiShot" and X :: "('w, 'a) SingleShot_methods"
  assumes "mShots P \<noteq> []"
    and "\<forall>shot \<in> set (butlast (mShots P)). jacobian_ok X world (stateDim P) shot"
    and "\<forall>shot \<in> set (tl (mShots P)). stateDim P \<le> SingleShot_getFlatProblemDim shot"
    and "(\<Sum>i < length (mShots P) - 1.
            SingleShot_getFlatProblemDim (mShots P ! i) * stateDim P + stateDim P) < 2 ^ 31"
  shows "verifySparseJacobian no_custom_constraints X world P = Inr True"
proof -
  let ?A = "no_custom_constraints :: ('w, 'a) AbstractShot"
  let ?sd = "stateDim P"
  let ?shots = "mShots P"
  let ?R = "getConstraintDim ?A P"
  let ?C = "getFlatProblemDim P"
  let ?T = "knot_triples X world ?sd 0 0 (butlast ?shots)"
  let ?Z = "Zero ?R ?C :: 'a mat"
  let ?n = "length ?T"
  have pc: "parent_getConstraintDim ?A = 0" and pn: "parent_getNumberNonZeroJacobian ?A = 0"
    and pb: "\<And>M. parent_backpropJacobian ?A world M = M"
    and ps: "\<And>rc. parent_getJacobianSparsityStructure ?A rc = rc"
    by (simp_all add: no_custom_constraints_def)
  have R: "?R = ?sd * (length ?shots - 1)"
    using assms(1) by (simp add: getConstraintDim_def pc size_minus_1_def stateDim_def)
  have C: "?C = sum_list (map SingleShot_getFlatProblemDim ?shots)"
    by (simp add: getFlatProblemDim_def getFlatProblemDim_sum)
  have split: "sum_list (map SingleShot_getFlatProblemDim ?shots)
      = sum_list (map SingleShot_getFlatProblemDim (butlast ?shots))
        + SingleShot_getFlatProblemDim (last ?shots)"
  proof -
    have "?shots = butlast ?shots @ [last ?shots]" using assms(1) by simp
    then have "sum_list (map SingleShot_getFlatProblemDim ?shots)
        = sum_list (map SingleShot_getFlatProblemDim (butlast ?shots @ [last ?shots]))"
      by (simp only:)
    then show ?thesis by simp
  qed
  have fit: "fits ?sd 0 0 (butlast ?shots) ?R ?C"
    using assms(1,3) by (rule fits_butlast) (simp_all add: R C)
  have wfZ: "wf_mat ?Z" by (rule Zero_wf)
  have ir: "in_range ?T ?Z"
    by (rule knot_triples_in_range) (simp add: fit)
  have loop: "backpropJacobian_loop X world P 1 0 0 ?Z
      = Inr (0 + ?sd * length (drop 0 (butlast ?shots)),
             0 + sum_list (map SingleShot_getFlatProblemDim (drop 0 (butlast ?shots))),
             scat (knot_triples X world ?sd 0 0 (drop 0 (butlast ?shots))) ?Z)"
  proof (rule dense_knot_loop)
    show "1 = Suc 0" by simp
    show "1 \<le> length ?shots" using assms(1) by (cases ?shots) simp_all
    show "wf_mat ?Z" by (rule wfZ)
    show "zero_below 0 ?Z" by (rule zero_below_Zero)
    show "fits ?sd 0 0 (drop 0 (butlast ?shots)) (nrows ?Z) (ncols ?Z)" by (simp add: fit)
    show "\<forall>shot \<in> set (drop 0 (butlast ?shots)). jacobian_ok X world ?sd shot"
      using assms(2) by simp
  qed
  have loop': "backpropJacobian_loop X world P (Suc 0) 0 0 ?Z
      = Inr (?R, sum_list (map SingleShot_getFlatProblemDim (butlast ?shots)), scat ?T ?Z)"
    using loop by (simp add: R)
  have cc: "int (sum_list (map SingleShot_getFlatProblemDim (butlast ?shots)))
      = int ?C - int (SingleShot_getFlatProblemDim (last ?shots))"
    by (simp add: C split)
  have par: "assign_block 0 0 0 ?C (block 0 0 0 ?C ?Z) ?Z = Inr ?Z"
    using assign_empty_block [OF wfZ] by simp
  have dense: "backpropJacobian ?A X world P ?Z = Inr (scat ?T ?Z)"
    using assms(1)
    by (simp add: backpropJacobian_def pc pb par loop' scat_shape cc)
  have nnz: "getNumberNonZeroJacobian ?A P = Inr (int ?n)"
  proof -
    let ?total = "\<Sum>k = 0..<length ?shots - 1.
        SingleShot_getFlatProblemDim (?shots ! k) * ?sd + ?sd"
    have "?total = sum_list (map (\<lambda>shot. SingleShot_getFlatProblemDim shot * ?sd + ?sd)
                     (butlast ?shots))"
      by (rule sum_butlast_nth)
    also have "\<dots> = ?n" by (simp only: knot_triples_length)
    finally have total: "?total = ?n" .
    have "int ?total < int (2 ^ 31)"
      using assms(4) by (simp only: atLeast0LessThan of_nat_less_iff)
    then have bound: "0 + int ?total < 2 ^ 31" by simp
    have "getNumberNonZeroJacobian_loop P (int32 (int ?sd)) 0 0 = Inr (0 + int ?total)"
      using assms(1) _ _ bound by (rule getNumberNonZeroJacobian_loop_sum) simp_all
    then have "getNumberNonZeroJacobian_loop P (int32 (int ?sd)) 0 0 = Inr (int ?n)"
      by (simp only: total add_0)
    moreover have "getNumberNonZeroJacobian ?A P
        = getNumberNonZeroJacobian_loop P (int32 (int ?sd)) 0 0"
      by (simp only: getNumberNonZeroJacobian_def pn stateDim_def of_nat_add of_nat_0)
    ultimately show ?thesis by (simp only:)
  qed
  have sloop: "getJacobianSparsityStructure_loop P 1 0 0 (VectorZero ?n) (VectorZero ?n) 0
      = Inr (write_list 0
               (map (\<lambda>t. fst (fst t))
                  (knot_triples X world ?sd 0 0 (drop 0 (butlast ?shots)))) (VectorZero ?n),
             write_list 0
               (map (\<lambda>t. snd (fst t))
                  (knot_triples X world ?sd 0 0 (drop 0 (butlast ?shots)))) (VectorZero ?n))"
  proof (rule sparsity_knot_loop)
    show "1 = Suc 0" by simp
    show "1 \<le> length ?shots" using assms(1) by (cases ?shots) simp_all
    show "0 + length (knot_triples X world ?sd 0 0 (drop 0 (butlast ?shots)))
        \<le> length (VectorZero ?n :: nat list)"
      by (simp add: VectorZero_def)
    show "length (VectorZero ?n :: nat list) = length (VectorZero ?n :: nat list)" by simp
  qed
  have lv: "\<And>k. length (VectorZero k :: nat list) = k"
    and lv': "\<And>k. length (VectorZero k :: 'a list) = k"
    by (simp_all add: VectorZero_def)
  have sloop': "getJacobianSparsityStructure_loop P (Suc 0) 0 0 (VectorZero ?n) (VectorZero ?n) 0
      = Inr (map (\<lambda>t. fst (fst t)) ?T, map (\<lambda>t. snd (fst t)) ?T)"
    using sloop by (simp add: write_list_all lv)
  have struct: "getJacobianSparsityStructure ?A P (VectorZero ?n) (VectorZero ?n)
      = Inr (map (\<lambda>t. fst (fst t)) ?T, map (\<lambda>t. snd (fst t)) ?T)"
    by (simp add: getJacobianSparsityStructure_def pc ps assign_segment_def segment_def sloop')
  have vloop: "getSparseJacobian_loop X world P 1 (map (\<lambda>x. x * (- 1)) (Ones ?sd))
        (VectorZero ?n) 0
      = Inr (write_list 0
               (map snd (knot_triples X world ?sd 0 0 (drop 0 (butlast ?shots))))
               (VectorZero ?n))"
  proof (rule sparse_knot_loop)
    show "1 = Suc 0" by simp
    show "1 \<le> length ?shots" using assms(1) by (cases ?shots) simp_all
    show "0 + length (knot_triples X world ?sd 0 0 (drop 0 (butlast ?shots)))
        \<le> length (VectorZero ?n :: 'a list)"
      by (simp add: VectorZero_def)
    show "\<forall>shot \<in> set (drop 0 (butlast ?shots)). jacobian_ok X world ?sd shot"
      using assms(2) by simp
    show "map (\<lambda>x. x * (- 1)) (Ones ?sd) = map (\<lambda>x. x * (- 1)) (Ones ?sd :: 'a list)"
      by (rule refl)
  qed
  have vloop': "getSparseJacobian_loop X world P (Suc 0) (map (\<lambda>x. x * (- 1)) (Ones ?sd))
        (VectorZero ?n) 0 = Inr (map snd ?T)"
    using vloop by (simp add: write_list_all lv')
  have vals: "getSparseJacobian ?A X world P (VectorZero ?n) = Inr (map snd ?T)"
    using vloop' by (simp add: getSparseJacobian_def pn)
  have scatter: "scatter_loop 0 ?n (map (\<lambda>t. fst (fst t)) ?T) (map (\<lambda>t. snd (fst t)) ?T)
        (map snd ?T) ?Z = Inr (scat (drop 0 ?T) ?Z)"
    using _ _ ir by (rule scatter_loop_scat) simp_all
  show ?thesis
    by (simp add: verifySparseJacobian_def dense nnz struct vals scatter)
qed

text \<open>
  The hypotheses hold for the example problem: it has a shot, the final-state Jacobian of
  its first shot has the declared shape, its second shot tunes its start state, and its
  count of non-zero entries is 10.
\<close>

lemma verifySparseJacobian_example_hypotheses:
  "mShots example_problem \<noteq> []
   \<and> (\<forall>shot \<in> set (butlast (mShots example_problem)).
        jacobian_ok (example_methods :: (unit, int) SingleShot_methods) ()
          (stateDim example_problem) shot)
   \<and> (\<forall>shot \<in> set (tl (mShots example_problem)).
        stateDim example_problem \<le> SingleShot_getFlatProblemDim shot)
   \<and> (\<Sum>i < length (mShots example_problem) - 1.
         SingleShot_getFlatProblemDim (mShots example_problem ! i) * stateDim example_problem
         + stateDim example_problem) < 2 ^ 31"
proof (intro conjI)
  show "mShots example_problem \<noteq> []" by code_simp
  show "\<forall>shot \<in> set (butlast (mShots example_problem)).
        jacobian_ok (example_methods :: (unit, int) SingleShot_methods) ()
          (stateDim example_problem) shot"
    by code_simp
  show "\<forall>shot \<in> set (tl (mShots example_problem)).
        stateDim example_problem \<le> SingleShot_getFlatProblemDim shot"
    by code_simp
  show "(\<Sum>i < length (mShots example_problem) - 1.
         SingleShot_getFlatProblemDim (mShots example_problem ! i) * stateDim example_problem
         + stateDim example_problem) < 2 ^ 31"
    by (simp add: example_problem_def example_shot_def example_mapping_def
        SingleShot_getFlatProblemDim_def stateDim_def)
qed

section \<open>Replaying the stored forces\<close>

lemma write_columns_Nil: "write_columns c [] M = M"
  by (simp add: write_columns_def)

lemma write_columns_shape:
  "c + length vs \<le> ncols M \<Longrightarrow> ncols (write_columns c vs M) = ncols M"
  "nrows (write_columns c vs M) = nrows M"
  by (simp_all add: write_columns_def ncols_def)

lemma update_then_write:
  assumes "c < length cs"
  shows "take (Suc c) (cs[c := v]) @ vs @ drop (Suc c + length vs) (cs[c := v])
       = take c cs @ (v # vs) @ drop (c + Suc (length vs)) cs"
proof -
  have "take (Suc c) (cs[c := v]) = take c cs @ [v]"
    using assms by (simp add: take_Suc_conv_app_nth)
  moreover have "drop (Suc c + length vs) (cs[c := v]) = drop (c + Suc (length vs)) cs"
    by simp
  ultimately show ?thesis by simp
qed

lemma assign_col_write:
  assumes "c < ncols M" and "length v = nrows M"
  shows "assign_col c v M = Inr (M\<lparr>columns := (columns M)[c := v]\<rparr>)"
  using assms by (simp add: assign_col_def)

lemma write_columns_Cons:
  assumes "c < ncols M"
  shows "write_columns (Suc c) vs (M\<lparr>columns := (columns M)[c := v]\<rparr>)
       = write_columns c (v # vs) M"
  using assms update_then_write [of c "columns M" v vs]
  by (simp add: write_columns_def ncols_def)

lemma getStates_steps_simulate:
  assumes "j \<le> SingleShot.mSteps shot"
    and "SingleShot.mSteps shot \<le> ncols (SingleShot.mForces shot)"
    and "cursor + (SingleShot.mSteps shot - j) \<le> ncols poses"
    and "cursor + (SingleShot.mSteps shot - j) \<le> ncols vels"
    and "cursor + (SingleShot.mSteps shot - j) \<le> ncols forces"
    and "\<forall>w. length (getPositions W w) = nrows poses"
    and "\<forall>w. length (getVelocities W w) = nrows vels"
    and "\<forall>f \<in> set (columns (SingleShot.mForces shot)). length f = nrows forces"
  shows "getStates_steps W shot j world poses vels forces cursor
     = Inr (last (world # simulate W world
                     (drop j (take (SingleShot.mSteps shot) (columns (SingleShot.mForces shot))))),
            write_columns cursor
              (map (getPositions W) (simulate W world
                 (drop j (take (SingleShot.mSteps shot) (columns (SingleShot.mForces shot))))))
              poses,
            write_columns cursor
              (map (getVelocities W) (simulate W world
                 (drop j (take (SingleShot.mSteps shot) (columns (SingleShot.mForces shot))))))
              vels,
            write_columns cursor
              (drop j (take (SingleShot.mSteps shot) (columns (SingleShot.mForces shot))))
              forces,
            cursor + (SingleShot.mSteps shot - j))"
  using assms
proof (induction W shot j world poses vels forces cursor rule: getStates_steps.induct)
  case (1 W shot j world poses vels forces cursor)
  let ?n = "SingleShot.mSteps shot"
  let ?cols = "columns (SingleShot.mForces shot)"
  show ?case
  proof (cases "j < ?n")
    case False
    with "1.prems"(1) have "j = ?n" by simp
    then show ?thesis
      by (subst getStates_steps.simps) (simp add: write_columns_Nil)
  next
    case True
    let ?f = "?cols ! j"
    let ?w2 = "step W (setForces W ?f world)"
    let ?poses' = "poses\<lparr>columns := (columns poses)[cursor := getPositions W ?w2]\<rparr>"
    let ?vels' = "vels\<lparr>columns := (columns vels)[cursor := getVelocities W ?w2]\<rparr>"
    let ?forces' = "forces\<lparr>columns := (columns forces)[cursor := ?f]\<rparr>"
    let ?rest = "drop (j + 1) (take ?n ?cols)"
    have jc: "j < ncols (SingleShot.mForces shot)" using True "1.prems"(2) by simp
    then have jl: "j < length (take ?n ?cols)" using True by (simp add: ncols_def)
    have fs: "drop j (take ?n ?cols) = ?f # ?rest"
      using Cons_nth_drop_Suc [OF jl] True by simp
    have fin: "?f \<in> set ?cols" using jc by (simp add: ncols_def)
    have cp: "cursor < ncols poses" and cv: "cursor < ncols vels" and cf: "cursor < ncols forces"
      using True "1.prems"(3,4,5) by simp_all
    have ap: "assign_col cursor (getPositions W ?w2) poses = Inr ?poses'"
      using cp "1.prems"(6) by (simp add: assign_col_write)
    have av: "assign_col cursor (getVelocities W ?w2) vels = Inr ?vels'"
      using cv "1.prems"(7) by (simp add: assign_col_write)
    have af: "assign_col cursor ?f forces = Inr ?forces'"
      using cf "1.prems"(8) fin by (simp add: assign_col_write)
    have IH: "getStates_steps W shot (j + 1) ?w2 ?poses' ?vels' ?forces' (cursor + 1)
      = Inr (last (?w2 # simulate W ?w2 ?rest),
            write_columns (cursor + 1) (map (getPositions W) (simulate W ?w2 ?rest)) ?poses',
            write_columns (cursor + 1) (map (getVelocities W) (simulate W ?w2 ?rest)) ?vels',
            write_columns (cursor + 1) ?rest ?forces',
            cursor + 1 + (?n - (j + 1)))"
    proof (rule "1.IH" [OF True jc ap av af])
      show "j + 1 \<le> ?n" using True by simp
      show "?n \<le> ncols (SingleShot.mForces shot)" by (rule "1.prems"(2))
      show "cursor + 1 + (?n - (j + 1)) \<le> ncols ?poses'"
        using True "1.prems"(3) by (simp add: ncols_def)
      show "cursor + 1 + (?n - (j + 1)) \<le> ncols ?vels'"
        using True "1.prems"(4) by (simp add: ncols_def)
      show "cursor + 1 + (?n - (j + 1)) \<le> ncols ?forces'"
        using True "1.prems"(5) by (simp add: ncols_def)
      show "\<forall>w. length (getPositions W w) = nrows ?poses'" using "1.prems"(6) by simp
      show "\<forall>w. length (getVelocities W w) = nrows ?vels'" using "1.prems"(7) by simp
      show "\<forall>f \<in> set ?cols. length f = nrows ?forces'" using "1.prems"(8) by simp
    qed
    have step: "getStates_steps W shot j world poses vels forces cursor
        = getStates_steps W shot (j + 1) ?w2 ?poses' ?vels' ?forces' (cursor + 1)"
      using True jc ap av af by (subst getStates_steps.simps) simp
    have sim: "simulate W world (drop j (take ?n ?cols)) = ?w2 # simulate W ?w2 ?rest"
      by (simp only: fs simulate.simps)
    have wp: "write_columns (cursor + 1) (map (getPositions W) (simulate W ?w2 ?rest)) ?poses'
        = write_columns cursor (map (getPositions W) (simulate W world (drop j (take ?n ?cols)))) poses"
      using write_columns_Cons [OF cp] by (simp only: sim list.map Suc_eq_plus1)
    have wv: "write_columns (cursor + 1) (map (getVelocities W) (simulate W ?w2 ?rest)) ?vels'
        = write_columns cursor (map (getVelocities W) (simulate W world (drop j (take ?n ?cols)))) vels"
      using write_columns_Cons [OF cv] by (simp only: sim list.map Suc_eq_plus1)
    have wf: "write_columns (cursor + 1) ?rest ?forces'
        = write_columns cursor (drop j (take ?n ?cols)) forces"
      using write_columns_Cons [OF cf] by (simp only: fs Suc_eq_plus1)
    have lw: "last (?w2 # simulate W ?w2 ?rest)
        = last (world # simulate W world (drop j (take ?n ?cols)))"
      by (simp only: sim) simp
    have cu: "cursor + 1 + (?n - (j + 1)) = cursor + (?n - j)" using True by simp
    show ?thesis
      by (simp only: step IH wp wv wf lw cu)
  qed
qed


lemma simulate_length: "length (simulate W world fs) = length fs"
  by (induction fs arbitrary: world) simp_all

lemma simulate_append:
  "simulate W world (fs @ gs)
     = simulate W world fs @ simulate W (last (world # simulate W world fs)) gs"
  by (induction fs arbitrary: world) simp_all

lemma simulate_last_append:
  "last (world # simulate W world (fs @ gs))
     = last (last (world # simulate W world fs)
             # simulate W (last (world # simulate W world fs)) gs)"
  by (simp add: simulate_append)

lemma write_columns_append:
  assumes "c + length a + length b \<le> ncols M"
  shows "write_columns (c + length a) b (write_columns c a M) = write_columns c (a @ b) M"
proof -
  let ?cs = "columns M"
  let ?mid = "take c ?cs @ a @ drop (c + length a) ?cs"
  have l: "c + length a \<le> length ?cs" using assms by (simp add: ncols_def)
  have lt: "length (take c ?cs @ a) = c + length a" using l by simp
  have "take (c + length a) ?mid = take (length (take c ?cs @ a)) ((take c ?cs @ a) @ drop (c + length a) ?cs)"
    by (simp only: lt append_assoc)
  also have "\<dots> = take c ?cs @ a" by (rule append_eq_conv_conj [THEN iffD1, THEN conjunct1, symmetric]) simp
  finally have t: "take (c + length a) ?mid = take c ?cs @ a" .
  have "drop (c + length a + length b) ?mid
      = drop (length (take c ?cs @ a) + length b) ((take c ?cs @ a) @ drop (c + length a) ?cs)"
    by (simp only: lt append_assoc)
  also have "\<dots> = drop (length b) (drop (c + length a) ?cs)"
    by (simp only: drop_append) simp
  also have "\<dots> = drop (c + length (a @ b)) ?cs"
    by (simp add: ac_simps)
  finally have d: "drop (c + length a + length b) ?mid = drop (c + length (a @ b)) ?cs" .
  have "write_columns (c + length a) b (write_columns c a M)
      = M\<lparr>columns := take (c + length a) ?mid @ b @ drop (c + length a + length b) ?mid\<rparr>"
    unfolding write_columns_def by (simp del: take_append drop_append)
  also have "\<dots> = M\<lparr>columns := (take c ?cs @ a) @ b @ drop (c + length (a @ b)) ?cs\<rparr>"
    by (simp only: t d)
  also have "\<dots> = write_columns c (a @ b) M"
    unfolding write_columns_def by (simp only: append_assoc)
  finally show ?thesis .
qed

lemma stored_forces_length:
  assumes "\<forall>shot \<in> set shots. SingleShot.mSteps shot \<le> ncols (SingleShot.mForces shot)"
  shows "length (stored_forces shots) = sum_list (map SingleShot.mSteps shots)"
  using assms
proof (induction shots)
  case Nil
  then show ?case by (simp add: stored_forces_def)
next
  case (Cons shot rest)
  then have "length (stored_forces rest) = sum_list (map SingleShot.mSteps rest)" by simp
  moreover have "length (take (SingleShot.mSteps shot) (columns (SingleShot.mForces shot)))
      = SingleShot.mSteps shot"
    using Cons.prems unfolding ncols_def by simp
  ultimately show ?case by (simp add: stored_forces_def)
qed

lemma getStates_shots_simulate:
  assumes "\<forall>shot \<in> set shots.
             SingleShot.mSteps shot \<le> ncols (SingleShot.mForces shot)
           \<and> (\<forall>f \<in> set (columns (SingleShot.mForces shot)). length f = nrows forces)"
    and "cursor + sum_list (map SingleShot.mSteps shots) \<le> ncols poses"
    and "cursor + sum_list (map SingleShot.mSteps shots) \<le> ncols vels"
    and "cursor + sum_list (map SingleShot.mSteps shots) \<le> ncols forces"
    and "\<forall>w. length (getPositions W w) = nrows poses"
    and "\<forall>w. length (getVelocities W w) = nrows vels"
  shows "getStates_shots W shots world poses vels forces cursor
     = Inr (last (world # simulate W world (stored_forces shots)),
            write_columns cursor
              (map (getPositions W) (simulate W world (stored_forces shots))) poses,
            write_columns cursor
              (map (getVelocities W) (simulate W world (stored_forces shots))) vels,
            write_columns cursor (stored_forces shots) forces,
            cursor + sum_list (map SingleShot.mSteps shots))"
  using assms
proof (induction shots arbitrary: world poses vels forces cursor)
  case Nil
  then show ?case by (simp add: stored_forces_def write_columns_Nil)
next
  case (Cons shot rest)
  let ?n = "SingleShot.mSteps shot"
  let ?k = "sum_list (map SingleShot.mSteps rest)"
  let ?a = "take ?n (columns (SingleShot.mForces shot))"
  let ?b = "stored_forces rest"
  let ?wa = "simulate W world ?a"
  let ?w1 = "last (world # ?wa)"
  let ?wb = "simulate W ?w1 ?b"
  let ?poses1 = "write_columns cursor (map (getPositions W) ?wa) poses"
  let ?vels1 = "write_columns cursor (map (getVelocities W) ?wa) vels"
  let ?forces1 = "write_columns cursor ?a forces"
  have n: "?n \<le> ncols (SingleShot.mForces shot)"
    and fl: "\<forall>f \<in> set (columns (SingleShot.mForces shot)). length f = nrows forces"
    using Cons.prems(1) by simp_all
  have la: "length ?a = ?n" using n unfolding ncols_def by simp
  have lwa: "length ?wa = ?n" by (simp only: simulate_length la)
  have cp: "cursor + ?n + ?k \<le> ncols poses" and cv: "cursor + ?n + ?k \<le> ncols vels"
    and cf: "cursor + ?n + ?k \<le> ncols forces"
    using Cons.prems(2,3,4) by simp_all
  have steps: "getStates_steps W shot 0 world poses vels forces cursor
      = Inr (?w1, ?poses1, ?vels1, ?forces1, cursor + ?n)"
    using getStates_steps_simulate [of 0 shot cursor poses vels forces W world]
      n cp cv cf Cons.prems(5,6) fl by simp
  have rest: "getStates_shots W rest ?w1 ?poses1 ?vels1 ?forces1 (cursor + ?n)
      = Inr (last (?w1 # ?wb),
             write_columns (cursor + ?n) (map (getPositions W) ?wb) ?poses1,
             write_columns (cursor + ?n) (map (getVelocities W) ?wb) ?vels1,
             write_columns (cursor + ?n) ?b ?forces1,
             cursor + ?n + ?k)"
  proof (rule Cons.IH)
    show "\<forall>shot \<in> set rest.
             SingleShot.mSteps shot \<le> ncols (SingleShot.mForces shot)
           \<and> (\<forall>f \<in> set (columns (SingleShot.mForces shot)). length f = nrows ?forces1)"
      using Cons.prems(1) by (simp add: write_columns_shape)
    show "cursor + ?n + ?k \<le> ncols ?poses1"
      using cp lwa by (simp add: write_columns_shape)
    show "cursor + ?n + ?k \<le> ncols ?vels1"
      using cv lwa by (simp add: write_columns_shape)
    show "cursor + ?n + ?k \<le> ncols ?forces1"
      using cf la by (simp add: write_columns_shape)
    show "\<forall>w. length (getPositions W w) = nrows ?poses1"
      using Cons.prems(5) by (simp add: write_columns_shape)
    show "\<forall>w. length (getVelocities W w) = nrows ?vels1"
      using Cons.prems(6) by (simp add: write_columns_shape)
  qed
  have sf: "stored_forces (shot # rest) = ?a @ ?b"
    by (simp add: stored_forces_def)
  have sim: "simulate W world (?a @ ?b) = ?wa @ ?wb"
    by (rule simulate_append)
  have lst: "last (world # simulate W world (?a @ ?b)) = last (?w1 # ?wb)"
    by (rule simulate_last_append)
  have lb: "length ?b = ?k"
    using Cons.prems(1) by (intro stored_forces_length) simp
  have lwb: "length ?wb = ?k" by (simp only: simulate_length lb)
  have "cursor + length (map (getPositions W) ?wa) + length (map (getPositions W) ?wb)
      \<le> ncols poses"
    using cp by (simp only: length_map lwa lwb)
  from write_columns_append [OF this]
  have wp: "write_columns (cursor + ?n) (map (getPositions W) ?wb) ?poses1
      = write_columns cursor (map (getPositions W) (?wa @ ?wb)) poses"
    by (simp only: length_map lwa map_append)
  have "cursor + length (map (getVelocities W) ?wa) + length (map (getVelocities W) ?wb)
      \<le> ncols vels"
    using cv by (simp only: length_map lwa lwb)
  from write_columns_append [OF this]
  have wv: "write_columns (cursor + ?n) (map (getVelocities W) ?wb) ?vels1
      = write_columns cursor (map (getVelocities W) (?wa @ ?wb)) vels"
    by (simp only: length_map lwa map_append)
  have "cursor + length ?a + length ?b \<le> ncols forces"
    using cf by (simp only: la lb)
  from write_columns_append [OF this]
  have wf: "write_columns (cursor + ?n) ?b ?forces1 = write_columns cursor (?a @ ?b) forces"
    by (simp only: la)
  have e1: "getStates_shots W (shot # rest) world poses vels forces cursor
      = Inr (last (?w1 # ?wb),
             write_columns cursor (map (getPositions W) (?wa @ ?wb)) poses,
             write_columns cursor (map (getVelocities W) (?wa @ ?wb)) vels,
             write_columns cursor (?a @ ?b) forces,
             cursor + ?n + ?k)"
    by (simp only: getStates_shots.simps steps sum.case prod.case rest wp wv wf)
  have g1: "last (world # ?wa @ ?wb) = last (?w1 # ?wb)"
    using lst by (simp only: sim)
  have g3: "cursor + sum_list (map SingleShot.mSteps (shot # rest)) = cursor + ?n + ?k"
    by simp
  show ?case
    by (simp only: e1 sf sim g1 g3)
qed


lemma write_columns_all:
  "length vs = ncols M \<Longrightarrow> write_columns 0 vs M = M\<lparr>columns := vs\<rparr>"
  by (simp add: write_columns_def ncols_def)

text \<open>
  Without knots, for buffers of the asserted sizes, \<open>getStates\<close> sets the first shot's
  start position and velocity, and records in column \<open>t\<close> the position, the velocity and
  the force of step \<open>t\<close> of one continuous simulation driven by the concatenated stored
  forces. The world it returns is the world after the last step.
\<close>

lemma getStates_without_knots_replays:
  assumes "mShots P \<noteq> []"
    and "int (sum_list (map SingleShot.mSteps (mShots P))) = mSteps P"
    and "int (ncols poses) = mSteps P" and "nrows poses = getPosDim (mRepresentationMapping P)"
    and "int (ncols vels) = mSteps P" and "nrows vels = getVelDim (mRepresentationMapping P)"
    and "int (ncols forces) = mSteps P"
    and "nrows forces = getForceDim (mRepresentationMapping P)"
    and "\<forall>shot \<in> set (mShots P).
             SingleShot.mSteps shot \<le> ncols (SingleShot.mForces shot)
           \<and> (\<forall>f \<in> set (columns (SingleShot.mForces shot)). length f = nrows forces)"
    and "\<forall>w. length (getPositions W w) = nrows poses"
    and "\<forall>w. length (getVelocities W w) = nrows vels"
    and "w0 = setVelocities W (mStartVel (hd (mShots P)))
                (setPositions W (mStartPos (hd (mShots P))) world)"
  shows "getStates W X world P poses vels forces False
     = Inr (last (w0 # simulate W w0 (stored_forces (mShots P))),
            poses\<lparr>columns := map (getPositions W) (simulate W w0 (stored_forces (mShots P)))\<rparr>,
            vels\<lparr>columns := map (getVelocities W) (simulate W w0 (stored_forces (mShots P)))\<rparr>,
            forces\<lparr>columns := stored_forces (mShots P)\<rparr>)"
proof -
  let ?shots = "mShots P"
  let ?T = "sum_list (map SingleShot.mSteps ?shots)"
  let ?fs = "stored_forces ?shots"
  let ?ws = "simulate W w0 ?fs"
  obtain shot0 others where sh: "?shots = shot0 # others"
    using assms(1) by (cases ?shots) auto
  have w0: "w0 = setVelocities W (mStartVel shot0) (setPositions W (mStartPos shot0) world)"
    using assms(12) sh by simp
  have cp: "ncols poses = ?T" and cv: "ncols vels = ?T" and cf: "ncols forces = ?T"
    using assms(2,3,5,7) by simp_all
  have st: "\<forall>shot \<in> set ?shots. SingleShot.mSteps shot \<le> ncols (SingleShot.mForces shot)"
    using assms(9) by simp
  have lf: "length ?fs = ?T" by (rule stored_forces_length [OF st])
  have lw: "length ?ws = ?T" by (simp only: simulate_length lf)
  have run: "getStates_shots W ?shots w0 poses vels forces 0
     = Inr (last (w0 # ?ws),
            write_columns 0 (map (getPositions W) ?ws) poses,
            write_columns 0 (map (getVelocities W) ?ws) vels,
            write_columns 0 ?fs forces,
            0 + ?T)"
  proof (rule getStates_shots_simulate [OF assms(9)])
    show "0 + ?T \<le> ncols poses" using cp by simp
    show "0 + ?T \<le> ncols vels" using cv by simp
    show "0 + ?T \<le> ncols forces" using cf by simp
    show "\<forall>w. length (getPositions W w) = nrows poses" by (rule assms(10))
    show "\<forall>w. length (getVelocities W w) = nrows vels" by (rule assms(11))
  qed
  have a: "write_columns 0 (map (getPositions W) ?ws) poses
      = poses\<lparr>columns := map (getPositions W) ?ws\<rparr>"
    by (rule write_columns_all) (simp add: lw cp)
  have b: "write_columns 0 (map (getVelocities W) ?ws) vels
      = vels\<lparr>columns := map (getVelocities W) ?ws\<rparr>"
    by (rule write_columns_all) (simp add: lw cv)
  have c: "write_columns 0 ?fs forces = forces\<lparr>columns := ?fs\<rparr>"
    by (rule write_columns_all) (simp add: lf cf)
  have run': "getStates_shots W (shot0 # others)
       (setVelocities W (mStartVel shot0) (setPositions W (mStartPos shot0) world))
       poses vels forces 0
     = Inr (last (w0 # ?ws),
            poses\<lparr>columns := map (getPositions W) ?ws\<rparr>,
            vels\<lparr>columns := map (getVelocities W) ?ws\<rparr>,
            forces\<lparr>columns := ?fs\<rparr>, ?T)"
    using run unfolding a b c by (simp only: sh [symmetric] w0 [symmetric] add_0)
  show ?thesis
    unfolding getStates_def Let_def
    using assms(2-8) sh run' by (simp del: getStates_shots.simps)
qed

section \<open>State reconstruction without knots\<close>

text \<open>
  C6. The claim is that \<open>getStates\<close> without knots replays the stored forces from the
  first shot's start state and restores the world afterwards. On the example problem
  with start state \<open>(1, 2)\<close> and forces \<open>3, 4, 7\<close>, run in the one-degree-of-freedom
  simulator from the world \<open>([0], [0], [0])\<close>, the code records the positions
  \<open>6, 15, 31\<close>, the velocities \<open>5, 9, 16\<close> and the forces \<open>3, 4, 7\<close> of one continuous
  simulation, and leaves the world in the state after the last step, \<open>([31], [16], [7])\<close>:
  the snapshot taken at the start is never restored.
\<close>

theorem getStates_without_knots_leaves_world_stepped:
  "getStates toy_world example_methods ([0], [0], [0]) example_problem_forced
       (Zero 1 3) (Zero 1 3) (Zero 1 3) False
     = Inr (([31], [16], [7]),
            \<lparr>nrows = 1, columns = [[6], [15], [31]]\<rparr>,
            \<lparr>nrows = 1, columns = [[5], [9], [16]]\<rparr>,
            \<lparr>nrows = 1, columns = [[3], [4], [7]]\<rparr>)
   \<and> restore (RestorableSnapshot ([0], [0], [0 :: int])) ([31], [16], [7 :: int])
     = ([0], [0], [0])
   \<and> ([31], [16], [7 :: int]) \<noteq> ([0], [0], [0])"
proof (intro conjI)
  show "getStates toy_world example_methods ([0], [0], [0]) example_problem_forced
       (Zero 1 3) (Zero 1 3) (Zero 1 3) False
     = Inr (([31], [16], [7]),
            \<lparr>nrows = 1, columns = [[6], [15], [31]]\<rparr>,
            \<lparr>nrows = 1, columns = [[5], [9], [16]]\<rparr>,
            \<lparr>nrows = 1, columns = [[3], [4], [7]]\<rparr>)"
    by code_simp
  show "restore (RestorableSnapshot ([0], [0], [0 :: int])) ([31], [16], [7 :: int])
     = ([0], [0], [0])"
    by (simp add: restore_def RestorableSnapshot_def)
  show "([31], [16], [7 :: int]) \<noteq> ([0], [0], [0])"
    by simp
qed

end
